theory Spec2Isabelle
  imports Complex_Main "HOL-Library.Multiset"
begin

section \<open>Strings and the normalizer (services/messageMatcher.js)\<close>

text \<open>
  A JavaScript string is modelled as a \<^typ>\<open>string\<close> whose characters are the code points
  below 256 (ASCII and Latin-1), each a single UTF-16 code unit. A value that may be
  \<open>null\<close> or \<open>undefined\<close> is an \<open>option\<close>, with \<open>None\<close> for the missing value.
\<close>

datatype error = TypeError

definition code :: "char \<Rightarrow> nat" where
  "code c = of_char c"

text \<open>The class \<open>\s\<close> of a JavaScript regular expression, below code point 256.\<close>

definition isSpace :: "char \<Rightarrow> bool" where
  "isSpace c = (code c = 9 \<or> code c = 10 \<or> code c = 11 \<or> code c = 12 \<or> code c = 13
                \<or> code c = 32 \<or> code c = 160)"

text \<open>The class \<open>\w\<close>: \<open>[A-Za-z0-9_]\<close>.\<close>

definition isWord :: "char \<Rightarrow> bool" where
  "isWord c = ((48 \<le> code c \<and> code c \<le> 57) \<or> (65 \<le> code c \<and> code c \<le> 90)
               \<or> code c = 95 \<or> (97 \<le> code c \<and> code c \<le> 122))"

text \<open>\<open>String.prototype.toLowerCase\<close> on one character below code point 256.\<close>

definition lowerChar :: "char \<Rightarrow> char" where
  "lowerChar c =
     (if (65 \<le> code c \<and> code c \<le> 90) \<or> (192 \<le> code c \<and> code c \<le> 222 \<and> code c \<noteq> 215)
      then char_of (code c + 32) else c)"

definition toLowerCase :: "string \<Rightarrow> string" where
  "toLowerCase s = map lowerChar s"

text \<open>\<open>.replace(/\s+/g, ' ')\<close>: every maximal run of white space becomes one space.\<close>

function collapseSpaces :: "string \<Rightarrow> string" where
  "collapseSpaces [] = []"
| "collapseSpaces (c # cs) =
     (if isSpace c then CHR '' '' # collapseSpaces (dropWhile isSpace cs)
      else c # collapseSpaces cs)"
  by pat_completeness auto
termination
  by (relation "measure length") (auto simp: less_Suc_eq_le length_dropWhile_le)

text \<open>\<open>.replace(/[^\w\s]/g, '')\<close>: every character that is neither word nor space goes.\<close>

definition stripPunctuation :: "string \<Rightarrow> string" where
  "stripPunctuation s = filter (\<lambda>c. isWord c \<or> isSpace c) s"

text \<open>\<open>.trim()\<close>: white space is removed from both ends.\<close>

definition trim :: "string \<Rightarrow> string" where
  "trim s = rev (dropWhile isSpace (rev (dropWhile isSpace s)))"

text \<open>
  \<open>normalizeStr\<close> is the method chain of \<open>normalizeMessage\<close> on a string;
  \<open>normalizeMessage\<close> adds what the property access does on \<open>null\<close> or \<open>undefined\<close>:
  it throws a TypeError.
\<close>

definition normalizeStr :: "string \<Rightarrow> string" where
  "normalizeStr message = trim (stripPunctuation (collapseSpaces (toLowerCase message)))"

definition normalizeMessage :: "string option \<Rightarrow> error + string" where
  "normalizeMessage message =
     (case message of None \<Rightarrow> Inl TypeError | Some s \<Rightarrow> Inr (normalizeStr s))"


section \<open>The similarity scorer\<close>

text \<open>
  Modelled from the spec: \<open>compareTwoStrings\<close> of the package \<open>string-similarity\<close>, which
  \<open>calculateSimilarity\<close> calls, is not among the sources of the repository. The
  specification (section 4.2) describes the scorer as a Dice coefficient on character
  bigrams that is 1 for identical strings and 0 for strings without a common bigram. The
  model completes this with what version 4 of the package computes: white space is
  removed from both strings first (\<open>replace(/\s+/g, '')\<close>), equal strings score 1, a
  string of fewer than two characters scores 0, and otherwise the bigrams of the first
  string are counted in a map, each bigram of the second string that is still held in the
  map takes one occurrence out of it, and the score is twice the number of bigrams taken
  over the two lengths minus 2. Scores are real numbers.
\<close>

definition removeSpaces :: "string \<Rightarrow> string" where
  "removeSpaces s = filter (\<lambda>c. \<not> isSpace c) s"

fun bigrams :: "string \<Rightarrow> string list" where
  "bigrams (a # b # cs) = [a, b] # bigrams (b # cs)"
| "bigrams cs = []"

fun countBigrams :: "string list \<Rightarrow> (string \<rightharpoonup> nat) \<Rightarrow> (string \<rightharpoonup> nat)" where
  "countBigrams [] firstBigrams = firstBigrams"
| "countBigrams (bigram # rest) firstBigrams =
     countBigrams rest
       (firstBigrams(bigram \<mapsto> (case firstBigrams bigram of Some c \<Rightarrow> c + 1 | None \<Rightarrow> 1)))"

fun intersectBigrams :: "string list \<Rightarrow> (string \<rightharpoonup> nat) \<Rightarrow> nat \<Rightarrow> nat" where
  "intersectBigrams [] firstBigrams intersectionSize = intersectionSize"
| "intersectBigrams (bigram # rest) firstBigrams intersectionSize =
     (let found = (case firstBigrams bigram of Some c \<Rightarrow> c | None \<Rightarrow> 0)
      in if found > 0
         then intersectBigrams rest (firstBigrams(bigram \<mapsto> found - 1)) (intersectionSize + 1)
         else intersectBigrams rest firstBigrams intersectionSize)"

definition compareTwoStrings :: "string \<Rightarrow> string \<Rightarrow> real" where
  "compareTwoStrings first second =
     (let f = removeSpaces first; s = removeSpaces second
      in if f = s then 1
         else if length f < 2 \<or> length s < 2 then 0
         else 2 * real (intersectBigrams (bigrams s) (countBigrams (bigrams f) Map.empty) 0)
              / real (length f + length s - 2))"

text \<open>
  \<open>calculateSimilarity\<close> takes the comparison function as the parameter \<open>cmp\<close>. The guard
  \<open>!dbMessage || !apiMessage\<close> holds for \<open>null\<close>, \<open>undefined\<close> and the empty string.
\<close>

definition falsy :: "string option \<Rightarrow> bool" where
  "falsy m = (case m of None \<Rightarrow> True | Some s \<Rightarrow> s = [])"

definition calculateSimilarity ::
  "(string \<Rightarrow> string \<Rightarrow> real) \<Rightarrow> string option \<Rightarrow> string option \<Rightarrow> error + real" where
  "calculateSimilarity cmp dbMessage apiMessage =
     (if falsy dbMessage \<or> falsy apiMessage then Inr 0
      else (case normalizeMessage dbMessage of
              Inl e \<Rightarrow> Inl e
            | Inr normalizedDb \<Rightarrow>
                (case normalizeMessage apiMessage of
                   Inl e \<Rightarrow> Inl e
                 | Inr normalizedApi \<Rightarrow> Inr (cmp normalizedDb normalizedApi))))"

section \<open>Number formatting\<close>

text \<open>
  \<open>Number.prototype.toFixed(2)\<close> on a finite number below \<open>10^21\<close>, over the reals:
  the nearest multiple of 1/100, the larger one at a tie, printed with two decimals.
\<close>

definition digitChar :: "nat \<Rightarrow> char" where
  "digitChar d = ''0123456789'' ! d"

fun digitsOf :: "nat \<Rightarrow> string" where
  "digitsOf n = (if n < 10 then [digitChar n] else digitsOf (n div 10) @ [digitChar (n mod 10)])"

declare digitsOf.simps [simp del]

definition toFixed2 :: "real \<Rightarrow> string" where
  "toFixed2 x =
     (let ds = digitsOf (nat \<lfloor>\<bar>x\<bar> * 100 + 1 / 2\<rfloor>);
          padded = replicate (3 - length ds) CHR ''0'' @ ds;
          shown = take (length padded - 2) padded @ ''.'' @ drop (length padded - 2) padded
      in if x < 0 then CHR ''-'' # shown else shown)"

text \<open>
  The quotient of two counts as a JavaScript number: a division by zero gives \<open>NaN\<close>
  or \<open>Infinity\<close>, which \<open>toFixed\<close> prints by name.
\<close>

datatype jsnum = Finite real | NaN | PosInfinity

definition jsDivide :: "nat \<Rightarrow> nat \<Rightarrow> jsnum" where
  "jsDivide a b =
     (if b = 0 then (if a = 0 then NaN else PosInfinity) else Finite (real a / real b))"

fun jsTimes :: "jsnum \<Rightarrow> real \<Rightarrow> jsnum" where
  "jsTimes (Finite x) k = Finite (x * k)"
| "jsTimes NaN k = NaN"
| "jsTimes PosInfinity k = PosInfinity"

fun jsToFixed2 :: "jsnum \<Rightarrow> string" where
  "jsToFixed2 (Finite x) = toFixed2 x"
| "jsToFixed2 NaN = ''NaN''"
| "jsToFixed2 PosInfinity = ''Infinity''"

section \<open>Records of the two sources and the outcomes\<close>

text \<open>
  A \<open>Date\<close> is an instant in milliseconds or the invalid date, whose time value is
  \<open>NaN\<close>: every comparison with it is false.
\<close>

datatype jsdate = Instant int | InvalidDate

fun dateGreater :: "jsdate \<Rightarrow> jsdate \<Rightarrow> bool" where
  "dateGreater (Instant a) (Instant b) = (b < a)"
| "dateGreater _ _ = False"

text \<open>
  \<open>new Date(v)\<close> for a date \<open>v\<close> or \<open>undefined\<close>. In the two date fields of an external
  record \<open>None\<close> is a field that is not there; a field that holds \<open>null\<close> is not
  represented (\<open>new Date(null)\<close> is the epoch, not the invalid date).
\<close>

fun newDate :: "jsdate option \<Rightarrow> jsdate" where
  "newDate (Some d) = d"
| "newDate None = InvalidDate"

text \<open>\<open>a || b\<close> on strings (the empty string is falsy) and on dates (an object is truthy).\<close>

definition strOr :: "string option \<Rightarrow> string option \<Rightarrow> string option" where
  "strOr a b = (if falsy a then b else a)"

fun dateOr :: "jsdate option \<Rightarrow> jsdate option \<Rightarrow> jsdate option" where
  "dateOr (Some d) b = Some d"
| "dateOr None b = b"

record dbMessageDoc =
  db_id :: string
  db_message :: "string option"
  db_phone_number :: string
  db_sent_date :: jsdate
  db_role :: string
  db_type_of_message :: "string option"

record apiMessageObj =
  api_message :: "string option"
  api_body :: "string option"
  api_timestamp :: "jsdate option"
  api_sent_date :: "jsdate option"

record dbMessageView =
  v_id :: string
  v_message :: "string option"
  v_phoneNumber :: string
  v_sentDate :: jsdate
  v_role :: string
  v_type :: "string option"

record apiMessageView =
  av_message :: "string option"
  av_timestamp :: "jsdate option"

text \<open>
  \<open>apiIndex\<close> is not a field of the JavaScript object: it records the value of
  \<open>bestIndex\<close> when the outcome is pushed, the position in the pool of the external
  record the outcome refers to.
\<close>

record matchedOutcome =
  m_dbMessage :: dbMessageView
  m_apiMessage :: apiMessageView
  confidenceScore :: real
  similarityPercentage :: string
  apiIndex :: int

record unmatchedOutcome =
  u_dbMessage :: dbMessageView
  bestMatchScore :: real
  reason :: string

record firstMessageStats =
  fm_total :: nat
  fm_matched :: nat
  fm_unmatched :: nat

datatype confidence = ConfidenceZero | ConfidencePercent string

record statistics =
  totalDbMessages :: nat
  totalApiMessages :: nat
  matchedCount :: nat
  unmatchedCount :: nat
  averageConfidence :: confidence
  firstStats :: firstMessageStats

record results =
  matched :: "matchedOutcome list"
  unmatched :: "unmatchedOutcome list"
  stats :: statistics

text \<open>config/constants.js\<close>

definition SIMILARITY_THRESHOLD :: real where
  "SIMILARITY_THRESHOLD = 9 / 10"

definition BATCH_SIZE :: int where
  "BATCH_SIZE = 100"

definition FIRST_MESSAGE :: string where
  "FIRST_MESSAGE = ''first_message''"


section \<open>matchMessages\<close>

text \<open>
  The inner loop \<open>for (let i = 0; i < apiMessagesCopy.length; i++)\<close>. Its state is
  \<open>(bestMatch, bestScore, bestIndex)\<close>; \<open>matchedApiIndices\<close> is the set of consumed
  positions of the pool.
\<close>

type_synonym best = "apiMessageObj option \<times> real \<times> int"

function scanApi ::
  "(string \<Rightarrow> string \<Rightarrow> real) \<Rightarrow> dbMessageDoc \<Rightarrow> int set \<Rightarrow> apiMessageObj list \<Rightarrow> nat \<Rightarrow> best
   \<Rightarrow> error + best" where
  "scanApi cmp dbMsg matchedApiIndices apiMessagesCopy i best =
     (if i < length apiMessagesCopy then
        (if int i \<in> matchedApiIndices
         then scanApi cmp dbMsg matchedApiIndices apiMessagesCopy (i + 1) best
         else
           (let apiMsg = apiMessagesCopy ! i;
                dbDate = newDate (Some (db_sent_date dbMsg));
                apiDate = newDate (dateOr (api_timestamp apiMsg) (api_sent_date apiMsg))
            in if dateGreater dbDate apiDate
               then scanApi cmp dbMsg matchedApiIndices apiMessagesCopy (i + 1) best
               else
                 (case calculateSimilarity cmp (db_message dbMsg)
                         (strOr (api_message apiMsg) (api_body apiMsg)) of
                    Inl e \<Rightarrow> Inl e
                  | Inr similarity \<Rightarrow>
                      (if similarity > fst (snd best) \<and> similarity \<ge> SIMILARITY_THRESHOLD
                       then scanApi cmp dbMsg matchedApiIndices apiMessagesCopy (i + 1)
                              (Some apiMsg, similarity, int i)
                       else scanApi cmp dbMsg matchedApiIndices apiMessagesCopy (i + 1) best))))
      else Inr best)"
  by pat_completeness auto
termination
  by (relation "measure (\<lambda>(cmp, dbMsg, used, api, i, best). length api - i)") auto

declare scanApi.simps [simp del]

definition dbView :: "dbMessageDoc \<Rightarrow> dbMessageView" where
  "dbView dbMsg =
     \<lparr> v_id = db_id dbMsg, v_message = db_message dbMsg,
       v_phoneNumber = db_phone_number dbMsg, v_sentDate = db_sent_date dbMsg,
       v_role = db_role dbMsg, v_type = db_type_of_message dbMsg \<rparr>"

definition apiView :: "apiMessageObj \<Rightarrow> apiMessageView" where
  "apiView bestMatch =
     \<lparr> av_message = strOr (api_message bestMatch) (api_body bestMatch),
       av_timestamp = dateOr (api_timestamp bestMatch) (api_sent_date bestMatch) \<rparr>"

definition isFirst :: "dbMessageDoc \<Rightarrow> bool" where
  "isFirst dbMsg = (db_type_of_message dbMsg = Some FIRST_MESSAGE)"

definition countFirstTotal :: "dbMessageDoc \<Rightarrow> results \<Rightarrow> results" where
  "countFirstTotal dbMsg r =
     (if isFirst dbMsg
      then r\<lparr>stats := (stats r)\<lparr>firstStats :=
             (firstStats (stats r))\<lparr>fm_total := fm_total (firstStats (stats r)) + 1\<rparr>\<rparr>\<rparr>
      else r)"

definition pushMatched ::
  "dbMessageDoc \<Rightarrow> apiMessageObj \<Rightarrow> real \<Rightarrow> int \<Rightarrow> results \<Rightarrow> results" where
  "pushMatched dbMsg bestMatch bestScore bestIndex r =
     (let r1 = r\<lparr>matched := matched r @
                  [\<lparr> m_dbMessage = dbView dbMsg, m_apiMessage = apiView bestMatch,
                     confidenceScore = bestScore,
                     similarityPercentage = toFixed2 (bestScore * 100) @ ''%'',
                     apiIndex = bestIndex \<rparr>]\<rparr>;
          r2 = r1\<lparr>stats := (stats r1)\<lparr>matchedCount := matchedCount (stats r1) + 1\<rparr>\<rparr>
      in if isFirst dbMsg
         then r2\<lparr>stats := (stats r2)\<lparr>firstStats :=
                (firstStats (stats r2))\<lparr>fm_matched := fm_matched (firstStats (stats r2)) + 1\<rparr>\<rparr>\<rparr>
         else r2)"

definition pushUnmatched :: "dbMessageDoc \<Rightarrow> real \<Rightarrow> results \<Rightarrow> results" where
  "pushUnmatched dbMsg bestScore r =
     (let r1 = r\<lparr>unmatched := unmatched r @
                  [\<lparr> u_dbMessage = dbView dbMsg, bestMatchScore = bestScore,
                     reason = (if bestScore > 0 then ''Below similarity threshold''
                               else ''No matching message found'') \<rparr>]\<rparr>;
          r2 = r1\<lparr>stats := (stats r1)\<lparr>unmatchedCount := unmatchedCount (stats r1) + 1\<rparr>\<rparr>
      in if isFirst dbMsg
         then r2\<lparr>stats := (stats r2)\<lparr>firstStats :=
                (firstStats (stats r2))\<lparr>fm_unmatched := fm_unmatched (firstStats (stats r2)) + 1\<rparr>\<rparr>\<rparr>
         else r2)"

text \<open>
  One iteration of \<open>for (const dbMsg of dbMessages)\<close>, on the state
  \<open>(results, matchedApiIndices)\<close>.
\<close>

definition matchOne ::
  "(string \<Rightarrow> string \<Rightarrow> real) \<Rightarrow> apiMessageObj list \<Rightarrow> dbMessageDoc \<Rightarrow> results \<times> int set
   \<Rightarrow> error + results \<times> int set" where
  "matchOne cmp apiMessagesCopy dbMsg st =
     (case scanApi cmp dbMsg (snd st) apiMessagesCopy 0 (None, 0, - 1) of
        Inl e \<Rightarrow> Inl e
      | Inr (bestMatch, bestScore, bestIndex) \<Rightarrow>
          (case bestMatch of
             Some found \<Rightarrow>
               (if bestScore \<ge> SIMILARITY_THRESHOLD
                then Inr (pushMatched dbMsg found bestScore bestIndex
                            (countFirstTotal dbMsg (fst st)),
                          insert bestIndex (snd st))
                else Inr (pushUnmatched dbMsg bestScore (countFirstTotal dbMsg (fst st)), snd st))
           | None \<Rightarrow>
               Inr (pushUnmatched dbMsg bestScore (countFirstTotal dbMsg (fst st)), snd st)))"

fun matchLoop ::
  "(string \<Rightarrow> string \<Rightarrow> real) \<Rightarrow> apiMessageObj list \<Rightarrow> dbMessageDoc list \<Rightarrow> results \<times> int set
   \<Rightarrow> error + results \<times> int set" where
  "matchLoop cmp apiMessagesCopy [] st = Inr st"
| "matchLoop cmp apiMessagesCopy (dbMsg # rest) st =
     (case matchOne cmp apiMessagesCopy dbMsg st of
        Inl e \<Rightarrow> Inl e
      | Inr st' \<Rightarrow> matchLoop cmp apiMessagesCopy rest st')"

definition initialResults :: "nat \<Rightarrow> nat \<Rightarrow> results" where
  "initialResults nDb nApi =
     \<lparr> matched = [], unmatched = [],
       stats = \<lparr> totalDbMessages = nDb, totalApiMessages = nApi, matchedCount = 0,
                 unmatchedCount = 0, averageConfidence = ConfidenceZero,
                 firstStats = \<lparr> fm_total = 0, fm_matched = 0, fm_unmatched = 0 \<rparr> \<rparr> \<rparr>"

text \<open>The average confidence is set only when some outcome is matched.\<close>

definition setAverage :: "results \<Rightarrow> results" where
  "setAverage r =
     (if length (matched r) > 0
      then r\<lparr>stats := (stats r)\<lparr>averageConfidence :=
             ConfidencePercent
               (toFixed2 (sum_list (map confidenceScore (matched r)) / real (length (matched r)) * 100)
                @ ''%'')\<rparr>\<rparr>
      else r)"

definition matchMessages ::
  "(string \<Rightarrow> string \<Rightarrow> real) \<Rightarrow> dbMessageDoc list \<Rightarrow> apiMessageObj list \<Rightarrow> error + results" where
  "matchMessages cmp dbMessages apiMessages =
     (case matchLoop cmp apiMessages dbMessages
             (initialResults (length dbMessages) (length apiMessages), {}) of
        Inl e \<Rightarrow> Inl e
      | Inr st \<Rightarrow> Inr (setAverage (fst st)))"

section \<open>batchMatchMessages\<close>

text \<open>\<open>Array.prototype.slice(start, end)\<close>: a negative bound counts from the end.\<close>

definition slice :: "'a list \<Rightarrow> int \<Rightarrow> int \<Rightarrow> 'a list" where
  "slice xs start fin =
     (let len = int (length xs);
          k = (if start < 0 then max (len + start) 0 else min start len);
          final = (if fin < 0 then max (len + fin) 0 else min fin len)
      in take (nat (final - k)) (drop (nat k) xs))"

definition mergeBatch :: "results \<Rightarrow> results \<Rightarrow> results" where
  "mergeBatch allResults batchResults =
     allResults
       \<lparr> matched := matched allResults @ matched batchResults,
         unmatched := unmatched allResults @ unmatched batchResults,
         stats := (stats allResults)
           \<lparr> matchedCount := matchedCount (stats allResults) + matchedCount (stats batchResults),
             unmatchedCount :=
               unmatchedCount (stats allResults) + unmatchedCount (stats batchResults),
             firstStats :=
               \<lparr> fm_total = fm_total (firstStats (stats allResults))
                              + fm_total (firstStats (stats batchResults)),
                 fm_matched = fm_matched (firstStats (stats allResults))
                                + fm_matched (firstStats (stats batchResults)),
                 fm_unmatched = fm_unmatched (firstStats (stats allResults))
                                  + fm_unmatched (firstStats (stats batchResults)) \<rparr> \<rparr> \<rparr>"

text \<open>
  The loop \<open>for (let i = 0; i < dbMessages.length; i += batchSize)\<close>. It need not end,
  so its result is an \<open>option\<close>: \<open>None\<close> when the loop runs forever.
\<close>

partial_function (option) batchLoop ::
  "(string \<Rightarrow> string \<Rightarrow> real) \<Rightarrow> dbMessageDoc list \<Rightarrow> apiMessageObj list \<Rightarrow> int \<Rightarrow> int \<Rightarrow> results
   \<Rightarrow> (error + results) option" where
  "batchLoop cmp dbMessages apiMessages batchSize i allResults =
     (if i < int (length dbMessages) then
        (case matchMessages cmp (slice dbMessages i (i + batchSize)) apiMessages of
           Inl e \<Rightarrow> Some (Inl e)
         | Inr batchResults \<Rightarrow>
             batchLoop cmp dbMessages apiMessages batchSize (i + batchSize)
               (mergeBatch allResults batchResults))
      else Some (Inr allResults))"

definition batchMatchMessages ::
  "(string \<Rightarrow> string \<Rightarrow> real) \<Rightarrow> dbMessageDoc list \<Rightarrow> apiMessageObj list \<Rightarrow> int
   \<Rightarrow> (error + results) option" where
  "batchMatchMessages cmp dbMessages apiMessages batchSize =
     (case batchLoop cmp dbMessages apiMessages batchSize 0
             (initialResults (length dbMessages) (length apiMessages)) of
        None \<Rightarrow> None
      | Some (Inl e) \<Rightarrow> Some (Inl e)
      | Some (Inr allResults) \<Rightarrow> Some (Inr (setAverage allResults)))"


declare batchLoop.simps [code]

section \<open>The verification service (services/verificationService.js)\<close>

record firstMessageSummary =
  fs_total :: nat
  fs_matched :: nat
  fs_unmatched :: nat
  unmatchedRate :: string

record reportSummary =
  periodFrom :: string
  periodTo :: string
  phoneNumbersVerified :: nat
  phoneNumbers :: "string list"
  totalMessagesInDB :: nat
  totalMessagesInAPI :: nat
  matchedMessages :: nat
  unmatchedMessages :: nat
  matchRate :: string
  summaryConfidence :: confidence
  summaryFirstStats :: firstMessageSummary

record reportDetails =
  detailMatched :: "matchedOutcome list"
  detailUnmatched :: "unmatchedOutcome list"

text \<open>
  The report: its summary and, when \<open>includeDetails\<close> holds, the two lists of outcomes
  (the three groupings of the unmatched list are left out of the record, and with them
  the RangeError that the grouping by date raises on an unmatched record whose date is
  invalid).
\<close>

record report =
  summary :: reportSummary
  details :: "reportDetails option"

definition generateVerificationReport ::
  "results \<Rightarrow> bool \<Rightarrow> string \<Rightarrow> string \<Rightarrow> string list \<Rightarrow> report" where
  "generateVerificationReport matchResults includeDetails dateFrom dateTo numbers =
     \<lparr> summary =
         \<lparr> periodFrom = dateFrom, periodTo = dateTo,
           phoneNumbersVerified = length numbers, phoneNumbers = numbers,
           totalMessagesInDB = totalDbMessages (stats matchResults),
           totalMessagesInAPI = totalApiMessages (stats matchResults),
           matchedMessages = matchedCount (stats matchResults),
           unmatchedMessages = unmatchedCount (stats matchResults),
           matchRate =
             jsToFixed2 (jsTimes (jsDivide (matchedCount (stats matchResults))
                                           (totalDbMessages (stats matchResults))) 100) @ ''%'',
           summaryConfidence = averageConfidence (stats matchResults),
           summaryFirstStats =
             \<lparr> fs_total = fm_total (firstStats (stats matchResults)),
               fs_matched = fm_matched (firstStats (stats matchResults)),
               fs_unmatched = fm_unmatched (firstStats (stats matchResults)),
               unmatchedRate =
                 (if fm_total (firstStats (stats matchResults)) > 0
                  then jsToFixed2 (jsTimes (jsDivide (fm_unmatched (firstStats (stats matchResults)))
                                                     (fm_total (firstStats (stats matchResults)))) 100)
                       @ ''%''
                  else ''0%'') \<rparr> \<rparr>,
       details =
         (if includeDetails
          then Some \<lparr> detailMatched = matched matchResults,
                      detailUnmatched = unmatched matchResults \<rparr>
          else None) \<rparr>"

record apiResponseEntry =
  responseMessages :: "apiMessageObj list option"
  responseSuccess :: bool

definition flattenApiMessages :: "apiResponseEntry list \<Rightarrow> apiMessageObj list" where
  "flattenApiMessages apiResponses =
     concat (map (\<lambda>response.
                    if responseSuccess response
                    then (case responseMessages response of Some ms \<Rightarrow> ms | None \<Rightarrow> [])
                    else [])
                 apiResponses)"

record verifyParams =
  dateFrom :: string
  dateTo :: string
  matchingThreshold :: "real option"
  includeDetails :: "bool option"

text \<open>
  The check of the controller (controllers/verificationController.js) on the threshold
  of a request: the request is answered with status 400 when it holds.
\<close>

definition thresholdRejected :: "real \<Rightarrow> bool" where
  "thresholdRejected t = (t < 9 / 10 \<or> t > 1)"

text \<open>
  \<open>verifyMessages\<close> of the service, after its three fetches: \<open>numbersToVerify\<close>,
  \<open>dbMessages\<close> and \<open>apiResponses\<close> are what the collaborators returned. The threshold of
  the request is read, with its default, and the matcher is called without it.
\<close>

definition verifyMessages ::
  "(string \<Rightarrow> string \<Rightarrow> real) \<Rightarrow> verifyParams \<Rightarrow> string list \<Rightarrow> dbMessageDoc list
   \<Rightarrow> apiResponseEntry list \<Rightarrow> (error + report) option" where
  "verifyMessages cmp params numbersToVerify dbMessages apiResponses =
     (let threshold = (case matchingThreshold params of None \<Rightarrow> 9 / 10 | Some t \<Rightarrow> t);
          withDetails = (case includeDetails params of None \<Rightarrow> True | Some b \<Rightarrow> b);
          allApiMessages = flattenApiMessages apiResponses
      in case batchMatchMessages cmp dbMessages allApiMessages BATCH_SIZE of
           None \<Rightarrow> None
         | Some (Inl e) \<Rightarrow> Some (Inl e)
         | Some (Inr matchResults) \<Rightarrow>
             Some (Inr (generateVerificationReport matchResults withDetails
                          (dateFrom params) (dateTo params) numbersToVerify)))"

section \<open>Shape of a normalized string\<close>

text \<open>A string with two spaces in a row.\<close>

fun doubleSpace :: "string \<Rightarrow> bool" where
  "doubleSpace (a # b # cs) = ((a = CHR '' '' \<and> b = CHR '' '') \<or> doubleSpace (b # cs))"
| "doubleSpace cs = False"

text \<open>
  The characters a normalized string is made of: lower-case word characters and the space.
\<close>

definition plain :: "char \<Rightarrow> bool" where
  "plain c = ((isWord c \<or> c = CHR '' '') \<and> lowerChar c = c)"

section \<open>Counts of bigrams\<close>

text \<open>How often the map of the scorer still holds a bigram.\<close>

definition held :: "(string \<rightharpoonup> nat) \<Rightarrow> string \<Rightarrow> nat" where
  "held m g = (case m g of Some c \<Rightarrow> c | None \<Rightarrow> 0)"

section \<open>Invariants of the matcher\<close>

text \<open>The date an external record is compared by.\<close>

definition apiDateOf :: "apiMessageObj \<Rightarrow> jsdate" where
  "apiDateOf a = newDate (dateOr (api_timestamp a) (api_sent_date a))"

text \<open>
  What holds of \<open>(bestMatch, bestScore, bestIndex)\<close> throughout the inner loop: nothing is
  held yet, or the held record is the one at \<open>bestIndex\<close>, unconsumed, not earlier than
  the internal record, with a score that reaches the threshold.
\<close>

definition bestOk :: "dbMessageDoc \<Rightarrow> int set \<Rightarrow> apiMessageObj list \<Rightarrow> nat \<Rightarrow> best \<Rightarrow> bool" where
  "bestOk dbMsg used api i b =
     (case fst b of
        None \<Rightarrow> fst (snd b) = 0 \<and> snd (snd b) = - 1
      | Some a \<Rightarrow> SIMILARITY_THRESHOLD \<le> fst (snd b) \<and> 0 \<le> snd (snd b) \<and> snd (snd b) < int i
                  \<and> snd (snd b) < int (length api) \<and> snd (snd b) \<notin> used
                  \<and> api ! nat (snd (snd b)) = a
                  \<and> \<not> dateGreater (db_sent_date dbMsg) (apiDateOf a))"

text \<open>
  What holds of every outcome the matcher has pushed, of the set of consumed positions and
  of the two counters, after each internal record.
\<close>

definition matchedOk :: "apiMessageObj list \<Rightarrow> matchedOutcome \<Rightarrow> bool" where
  "matchedOk api m =
     (SIMILARITY_THRESHOLD \<le> confidenceScore m \<and> 0 \<le> apiIndex m \<and> apiIndex m < int (length api)
      \<and> m_apiMessage m = apiView (api ! nat (apiIndex m))
      \<and> \<not> dateGreater (v_sentDate (m_dbMessage m)) (apiDateOf (api ! nat (apiIndex m))))"

definition unmatchedOk :: "unmatchedOutcome \<Rightarrow> bool" where
  "unmatchedOk u = (bestMatchScore u = 0 \<and> reason u = ''No matching message found'')"

definition stateOk :: "apiMessageObj list \<Rightarrow> results \<times> int set \<Rightarrow> bool" where
  "stateOk api st =
     (list_all (matchedOk api) (matched (fst st)) \<and> list_all unmatchedOk (unmatched (fst st))
      \<and> distinct (map apiIndex (matched (fst st)))
      \<and> set (map apiIndex (matched (fst st))) = snd st
      \<and> matchedCount (stats (fst st)) = length (matched (fst st))
      \<and> unmatchedCount (stats (fst st)) = length (unmatched (fst st)))"

text \<open>The internal records of the outcomes, as a multiset.\<close>

definition views :: "results \<Rightarrow> dbMessageView multiset" where
  "views r = mset (map m_dbMessage (matched r)) + mset (map u_dbMessage (unmatched r))"

text \<open>What is kept when the results of a batch are merged into the whole run.\<close>

definition resultsOk :: "apiMessageObj list \<Rightarrow> results \<Rightarrow> bool" where
  "resultsOk api r =
     (list_all (matchedOk api) (matched r) \<and> list_all unmatchedOk (unmatched r)
      \<and> matchedCount (stats r) = length (matched r)
      \<and> unmatchedCount (stats r) = length (unmatched r))"

section \<open>Sample records\<close>

text \<open>
  An internal record as the message collection stores it, and an external record as
  \<open>fetchMessagesForPhoneNumbers\<close> builds it: the text under both \<open>message\<close> and \<open>body\<close>,
  the time as a \<open>Date\<close>.
\<close>

definition internalRecord :: "string \<Rightarrow> string \<Rightarrow> int \<Rightarrow> dbMessageDoc" where
  "internalRecord ident text t =
     \<lparr> db_id = ident, db_message = Some text, db_phone_number = ''60123456789'',
       db_sent_date = Instant t, db_role = ''assistant'',
       db_type_of_message = Some ''first_message'' \<rparr>"

definition externalRecord :: "string \<Rightarrow> int \<Rightarrow> apiMessageObj" where
  "externalRecord text t =
     \<lparr> api_message = Some text, api_body = Some text, api_timestamp = Some (Instant t),
       api_sent_date = None \<rparr>"

section \<open>The normalizer\<close>

lemma isSpace_blank [simp]: "isSpace CHR '' ''"
  by (simp add: isSpace_def code_def)

lemma lowerChar_blank [simp]: "lowerChar CHR '' '' = CHR '' ''"
  by (simp add: lowerChar_def code_def)

lemma word_not_space: "isWord c \<Longrightarrow> \<not> isSpace c"
  by (auto simp: isWord_def isSpace_def)

lemma code_char_of: "n < 256 \<Longrightarrow> code (char_of n) = n"
  by (simp add: code_def)

lemma lowerChar_idem: "lowerChar (lowerChar c) = lowerChar c"
proof (cases "(65 \<le> code c \<and> code c \<le> 90) \<or> (192 \<le> code c \<and> code c \<le> 222 \<and> code c \<noteq> 215)")
  case False
  then have "lowerChar c = c" by (simp only: lowerChar_def if_False)
  then show ?thesis by simp
next
  case True
  then have small: "code c + 32 < 256" by auto
  from True have low: "lowerChar c = char_of (code c + 32)" by (simp add: lowerChar_def)
  have shifted: "code (lowerChar c) = code c + 32"
    unfolding low by (rule code_char_of [OF small])
  have "\<not> ((65 \<le> code (lowerChar c) \<and> code (lowerChar c) \<le> 90)
          \<or> (192 \<le> code (lowerChar c) \<and> code (lowerChar c) \<le> 222 \<and> code (lowerChar c) \<noteq> 215))"
    unfolding shifted using True by arith
  then show ?thesis by (simp only: lowerChar_def [of "lowerChar c"] if_False)
qed

lemma plain_space: "plain c \<Longrightarrow> isSpace c \<Longrightarrow> c = CHR '' ''"
  by (auto simp: plain_def word_not_space)

lemma length_collapseSpaces: "length (collapseSpaces s) \<le> length s"
proof (induction s rule: collapseSpaces.induct)
  case 1
  show ?case by simp
next
  case (2 c cs)
  have "length (dropWhile isSpace cs) \<le> length cs"
    by (rule length_dropWhile_le)
  with 2 show ?case by auto
qed

lemma set_collapseSpaces: "set (collapseSpaces s) \<subseteq> insert CHR '' '' (set s)"
proof (induction s rule: collapseSpaces.induct)
  case 1
  show ?case by simp
next
  case (2 c cs)
  have "set (dropWhile isSpace cs) \<subseteq> set cs"
    by (auto dest: set_dropWhileD)
  with 2 show ?case by auto
qed

lemma collapseSpaces_blank: "c \<in> set (collapseSpaces s) \<Longrightarrow> isSpace c \<Longrightarrow> c = CHR '' ''"
proof (induction s rule: collapseSpaces.induct)
  case 1
  then show ?case by simp
next
  case (2 d cs)
  then show ?case by (auto split: if_splits)
qed

lemma set_trim: "set (trim s) \<subseteq> set s"
  by (auto simp: trim_def dest!: set_dropWhileD)

lemma normalizeStr_plain: "c \<in> set (normalizeStr x) \<Longrightarrow> plain c"
proof -
  assume "c \<in> set (normalizeStr x)"
  then have "c \<in> set (stripPunctuation (collapseSpaces (toLowerCase x)))"
    using set_trim by (auto simp: normalizeStr_def)
  then have kind: "isWord c \<or> isSpace c" and mem: "c \<in> set (collapseSpaces (toLowerCase x))"
    by (auto simp: stripPunctuation_def)
  show "plain c"
  proof (cases "isSpace c")
    case True
    with mem have "c = CHR '' ''" by (rule collapseSpaces_blank)
    then show ?thesis by (simp add: plain_def)
  next
    case False
    with kind have w: "isWord c" by simp
    from mem set_collapseSpaces have "c = CHR '' '' \<or> c \<in> set (toLowerCase x)" by auto
    with False have "c \<in> lowerChar ` set x" by (auto simp: toLowerCase_def)
    then have "lowerChar c = c" by (auto simp: lowerChar_idem)
    with w show ?thesis by (simp add: plain_def)
  qed
qed

lemma last_dropWhile: "dropWhile P xs \<noteq> [] \<Longrightarrow> last (dropWhile P xs) = last xs"
  by (metis takeWhile_dropWhile_id last_appendR)

lemma trim_ends:
  "trim s \<noteq> [] \<Longrightarrow> \<not> isSpace (hd (trim s)) \<and> \<not> isSpace (last (trim s))"
proof -
  let ?t = "dropWhile isSpace s"
  let ?u = "dropWhile isSpace (rev ?t)"
  assume "trim s \<noteq> []"
  then have u: "?u \<noteq> []" by (simp add: trim_def)
  then have t: "?t \<noteq> []" by (cases "?t") auto
  from u have "\<not> isSpace (hd ?u)" by (rule hd_dropWhile)
  moreover from t have "\<not> isSpace (hd ?t)" by (rule hd_dropWhile)
  moreover from u have "last ?u = last (rev ?t)" by (rule last_dropWhile)
  ultimately show ?thesis
    using u t by (simp add: trim_def hd_rev last_rev)
qed

lemma trim_id: "s = [] \<or> (\<not> isSpace (hd s) \<and> \<not> isSpace (last s)) \<Longrightarrow> trim s = s"
proof (cases s)
  case Nil
  then show ?thesis by (simp add: trim_def)
next
  case (Cons a list)
  assume "s = [] \<or> (\<not> isSpace (hd s) \<and> \<not> isSpace (last s))"
  with Cons have h: "\<not> isSpace (hd s)" and l: "\<not> isSpace (last s)" by auto
  from h Cons have 1: "dropWhile isSpace s = s" by simp
  from Cons have "rev s \<noteq> []" by simp
  moreover from l have "\<not> isSpace (hd (rev s))" by (simp add: hd_rev)
  ultimately have "dropWhile isSpace (rev s) = rev s"
    by (cases "rev s") auto
  with 1 show ?thesis by (simp add: trim_def)
qed

lemma collapseSpaces_hd:
  "s \<noteq> [] \<Longrightarrow> \<not> isSpace (hd s) \<Longrightarrow> collapseSpaces s \<noteq> [] \<and> hd (collapseSpaces s) = hd s"
  by (cases s) auto

lemma collapseSpaces_last:
  "s \<noteq> [] \<Longrightarrow> \<not> isSpace (last s) \<Longrightarrow>
   collapseSpaces s \<noteq> [] \<and> last (collapseSpaces s) = last s"
proof (induction s rule: collapseSpaces.induct)
  case 1
  then show ?case by simp
next
  case (2 c cs)
  show ?case
  proof (cases "isSpace c")
    case True
    with "2.prems" have cs: "cs \<noteq> []" "\<not> isSpace (last cs)" by (auto split: if_splits)
    have rest: "dropWhile isSpace cs \<noteq> []"
    proof
      assume "dropWhile isSpace cs = []"
      then have "\<forall>x \<in> set cs. isSpace x" by (simp add: dropWhile_eq_Nil_conv)
      with cs show False by (metis last_in_set)
    qed
    then have "last (dropWhile isSpace cs) = last cs" by (rule last_dropWhile)
    with "2.IH"(1) [OF True rest] cs True show ?thesis by simp
  next
    case False
    show ?thesis
    proof (cases "cs = []")
      case True
      with False show ?thesis by simp
    next
      case ne: False
      with "2.prems" have "\<not> isSpace (last cs)" by simp
      with "2.IH"(2) [OF False ne] False ne show ?thesis by simp
    qed
  qed
qed

lemma collapseSpaces_fixed:
  "\<forall>c \<in> set z. isSpace c \<longrightarrow> c = CHR '' '' \<Longrightarrow> (collapseSpaces z = z) = (\<not> doubleSpace z)"
proof (induction z rule: collapseSpaces.induct)
  case 1
  show ?case by simp
next
  case (2 c cs)
  from "2.prems" have tail: "\<forall>c \<in> set cs. isSpace c \<longrightarrow> c = CHR '' ''"
    by simp
  show ?case
  proof (cases "isSpace c")
    case False
    then have "c \<noteq> CHR '' ''" by auto
    then have d: "doubleSpace (c # cs) = doubleSpace cs"
      by (cases cs) simp_all
    from False have e: "(collapseSpaces (c # cs) = c # cs) = (collapseSpaces cs = cs)"
      by simp
    from "2.IH"(2) [OF False tail] show ?thesis
      unfolding d e .
  next
    case True
    with "2.prems" have c: "c = CHR '' ''" by simp
    show ?thesis
    proof (cases "cs = [] \<or> \<not> isSpace (hd cs)")
      case keepTail: True
      then have keep: "dropWhile isSpace cs = cs"
        by (cases cs) auto
      from keepTail have "cs = [] \<or> hd cs \<noteq> CHR '' ''" by auto
      then have d: "doubleSpace (c # cs) = doubleSpace cs"
        by (cases cs) auto
      from True have e: "(collapseSpaces (c # cs) = c # cs) = (collapseSpaces cs = cs)"
        unfolding c by (simp add: keep)
      from tail have "\<forall>c \<in> set (dropWhile isSpace cs). isSpace c \<longrightarrow> c = CHR '' ''"
        unfolding keep .
      from "2.IH"(1) [OF True this] show ?thesis
        unfolding d e keep .
    next
      case False
      then obtain b bs where cs: "cs = b # bs" and sp: "isSpace b"
        by (cases cs) auto
      with tail have b: "b = CHR '' ''" by simp
      have "length (collapseSpaces (dropWhile isSpace cs)) \<le> length (dropWhile isSpace cs)"
        by (rule length_collapseSpaces)
      also have "\<dots> \<le> length bs"
        unfolding cs using sp by (simp add: length_dropWhile_le)
      finally have "length (collapseSpaces (c # cs)) < length (c # cs)"
        using True by (simp add: cs)
      then have ne: "collapseSpaces (c # cs) \<noteq> c # cs"
        by (metis less_irrefl)
      have "doubleSpace (c # cs)"
        unfolding cs c b by simp
      with ne show ?thesis by simp
    qed
  qed
qed

lemma normalizeStr_again: "normalizeStr (normalizeStr x) = collapseSpaces (normalizeStr x)"
proof -
  let ?z = "normalizeStr x"
  have pl: "\<And>c. c \<in> set ?z \<Longrightarrow> plain c" by (rule normalizeStr_plain)
  have low: "toLowerCase ?z = ?z"
    unfolding toLowerCase_def by (rule map_idI) (use pl in \<open>simp add: plain_def\<close>)
  have "\<forall>c \<in> set (collapseSpaces ?z). isWord c \<or> isSpace c"
  proof
    fix c
    assume "c \<in> set (collapseSpaces ?z)"
    with set_collapseSpaces [of ?z] have "c = CHR '' '' \<or> c \<in> set ?z" by auto
    then show "isWord c \<or> isSpace c"
    proof
      assume "c = CHR '' ''"
      then show ?thesis by simp
    next
      assume "c \<in> set ?z"
      from pl [OF this] show ?thesis by (auto simp: plain_def)
    qed
  qed
  then have strip: "stripPunctuation (collapseSpaces ?z) = collapseSpaces ?z"
    by (simp add: stripPunctuation_def)
  have "trim (collapseSpaces ?z) = collapseSpaces ?z"
  proof (cases "?z = []")
    case True
    then show ?thesis by (simp add: trim_def)
  next
    case False
    then have "trim (stripPunctuation (collapseSpaces (toLowerCase x))) \<noteq> []"
      by (simp add: normalizeStr_def)
    from trim_ends [OF this] have e: "\<not> isSpace (hd ?z)" "\<not> isSpace (last ?z)"
      by (simp_all add: normalizeStr_def)
    from collapseSpaces_hd [OF False e(1)] collapseSpaces_last [OF False e(2)] e
    show ?thesis by (intro trim_id) simp
  qed
  with low strip show ?thesis
    by (subst normalizeStr_def) simp
qed

lemma doubleSpace_iff: "doubleSpace s = (\<exists>u v. s = u @ CHR '' '' # CHR '' '' # v)"
proof (induction s rule: doubleSpace.induct)
  case (1 a b cs)
  show ?case
  proof
    assume "doubleSpace (a # b # cs)"
    then consider "a = CHR '' ''" "b = CHR '' ''" | "doubleSpace (b # cs)" by auto
    then show "\<exists>u v. a # b # cs = u @ CHR '' '' # CHR '' '' # v"
    proof cases
      case 1
      then have "a # b # cs = [] @ CHR '' '' # CHR '' '' # cs" by simp
      then show ?thesis by blast
    next
      case 2
      with "1.IH" obtain u v where "b # cs = u @ CHR '' '' # CHR '' '' # v" by auto
      then have "a # b # cs = (a # u) @ CHR '' '' # CHR '' '' # v" by simp
      then show ?thesis by blast
    qed
  next
    assume "\<exists>u v. a # b # cs = u @ CHR '' '' # CHR '' '' # v"
    then obtain u v where uv: "a # b # cs = u @ CHR '' '' # CHR '' '' # v" by auto
    show "doubleSpace (a # b # cs)"
    proof (cases u)
      case Nil
      with uv show ?thesis by simp
    next
      case (Cons x xs)
      with uv have "b # cs = xs @ CHR '' '' # CHR '' '' # v" by simp
      then have "doubleSpace (b # cs)" using "1.IH" by blast
      then show ?thesis by simp
    qed
  qed
qed (auto simp: Cons_eq_append_conv)

lemma doubleSpace_trim: "doubleSpace (trim s) \<Longrightarrow> doubleSpace s"
proof -
  let ?t = "dropWhile isSpace s"
  assume "doubleSpace (trim s)"
  then obtain u v where "trim s = u @ CHR '' '' # CHR '' '' # v"
    by (auto simp: doubleSpace_iff)
  then have "dropWhile isSpace (rev ?t) = rev v @ CHR '' '' # CHR '' '' # rev u"
    by (simp add: trim_def rev_swap)
  then have "rev ?t = (takeWhile isSpace (rev ?t) @ rev v) @ CHR '' '' # CHR '' '' # rev u"
    by (metis takeWhile_dropWhile_id append_assoc)
  then have "?t = u @ CHR '' '' # CHR '' '' # (v @ rev (takeWhile isSpace (rev ?t)))"
    by (simp add: rev_swap)
  then have "s = (takeWhile isSpace s @ u) @ CHR '' '' # CHR '' '' # (v @ rev (takeWhile isSpace (rev ?t)))"
    by (metis takeWhile_dropWhile_id append_assoc)
  then show ?thesis
    unfolding doubleSpace_iff by blast
qed

lemma collapseSpaces_single: "\<not> doubleSpace (collapseSpaces s)"
proof (induction s rule: collapseSpaces.induct)
  case 1
  show ?case by simp
next
  case (2 c cs)
  show ?case
  proof (cases "isSpace c")
    case False
    then have "c \<noteq> CHR '' ''" by auto
    then have "doubleSpace (c # collapseSpaces cs) = doubleSpace (collapseSpaces cs)"
      by (cases "collapseSpaces cs") simp_all
    with "2.IH"(2) [OF False] False show ?thesis by simp
  next
    case True
    let ?r = "dropWhile isSpace cs"
    have "collapseSpaces ?r = [] \<or> hd (collapseSpaces ?r) \<noteq> CHR '' ''"
    proof (cases "?r = []")
      case True
      then have "collapseSpaces ?r = []" by (simp only: collapseSpaces.simps)
      then show ?thesis by (rule disjI1)
    next
      case False
      then have "\<not> isSpace (hd ?r)" by (rule hd_dropWhile)
      with collapseSpaces_hd [OF False] show ?thesis by auto
    qed
    then have "doubleSpace (CHR '' '' # collapseSpaces ?r) = doubleSpace (collapseSpaces ?r)"
      by (cases "collapseSpaces ?r") auto
    with "2.IH"(1) [OF True] True show ?thesis by simp
  qed
qed

lemma isWord_lowerChar: "isWord c \<Longrightarrow> isWord (lowerChar c)"
proof (cases "(65 \<le> code c \<and> code c \<le> 90) \<or> (192 \<le> code c \<and> code c \<le> 222 \<and> code c \<noteq> 215)")
  case False
  then have "lowerChar c = c" by (simp only: lowerChar_def if_False)
  then show "isWord c \<Longrightarrow> isWord (lowerChar c)" by simp
next
  case True
  assume w: "isWord c"
  from True have small: "code c + 32 < 256" by auto
  from True have low: "lowerChar c = char_of (code c + 32)" by (simp add: lowerChar_def)
  have shifted: "code (lowerChar c) = code c + 32"
    unfolding low by (rule code_char_of [OF small])
  from w True show "isWord (lowerChar c)"
    unfolding isWord_def shifted by arith
qed

lemma isSpace_lowerChar: "isSpace c \<Longrightarrow> lowerChar c = c"
  by (auto simp: isSpace_def lowerChar_def)

lemma normalizeStr_idempotent_without_punctuation:
  assumes "\<forall>c \<in> set x. isWord c \<or> isSpace c"
  shows "normalizeStr (normalizeStr x) = normalizeStr x"
proof -
  have "\<forall>c \<in> set (toLowerCase x). isWord c \<or> isSpace c"
    using assms by (auto simp: toLowerCase_def isWord_lowerChar isSpace_lowerChar)
  then have "\<forall>c \<in> set (collapseSpaces (toLowerCase x)). isWord c \<or> isSpace c"
    using set_collapseSpaces [of "toLowerCase x"] by auto
  then have "stripPunctuation (collapseSpaces (toLowerCase x)) = collapseSpaces (toLowerCase x)"
    by (simp add: stripPunctuation_def)
  then have n: "normalizeStr x = trim (collapseSpaces (toLowerCase x))"
    by (simp add: normalizeStr_def)
  have "\<not> doubleSpace (normalizeStr x)"
    unfolding n using doubleSpace_trim collapseSpaces_single by blast
  moreover have "\<forall>c \<in> set (normalizeStr x). isSpace c \<longrightarrow> c = CHR '' ''"
    using normalizeStr_plain plain_space by blast
  ultimately show ?thesis
    using collapseSpaces_fixed normalizeStr_again by simp
qed

section \<open>The scorer\<close>

lemma held_countBigrams: "(0 < held (countBigrams fs m) g) = (g \<in> set fs \<or> 0 < held m g)"
proof (induction fs arbitrary: m)
  case Nil
  show ?case by simp
next
  case (Cons f fs)
  show ?case
    unfolding countBigrams.simps Cons.IH
    by (auto simp: held_def split: option.splits)
qed

lemma intersectBigrams_grows: "n \<le> intersectBigrams gs m n"
proof (induction gs arbitrary: m n)
  case Nil
  show ?case by simp
next
  case (Cons g gs)
  have "n \<le> intersectBigrams gs m n" by (rule Cons.IH)
  moreover have "n + 1 \<le> intersectBigrams gs (m(g \<mapsto> held m g - 1)) (n + 1)" by (rule Cons.IH)
  ultimately show ?case
    by (simp add: Let_def held_def)
qed

lemma intersectBigrams_none: "(intersectBigrams gs m n = n) = (\<forall>g \<in> set gs. held m g = 0)"
proof (induction gs arbitrary: m n)
  case Nil
  show ?case by simp
next
  case (Cons g gs)
  show ?case
  proof (cases "0 < held m g")
    case True
    have "n + 1 \<le> intersectBigrams gs (m(g \<mapsto> held m g - 1)) (n + 1)"
      by (rule intersectBigrams_grows)
    then have "intersectBigrams gs (m(g \<mapsto> held m g - 1)) (n + 1) \<noteq> n" by simp
    with True show ?thesis by (simp add: Let_def held_def)
  next
    case False
    then have "intersectBigrams (g # gs) m n = intersectBigrams gs m n"
      by (simp add: Let_def held_def)
    with False Cons.IH [of m n] show ?thesis by simp
  qed
qed

lemma held_empty [simp]: "held Map.empty g = 0"
  by (simp add: held_def)

lemma intersection_zero:
  "(intersectBigrams gs (countBigrams fs Map.empty) 0 = 0) = (set fs \<inter> set gs = {})"
proof -
  have "(intersectBigrams gs (countBigrams fs Map.empty) 0 = 0)
        = (\<forall>g \<in> set gs. \<not> 0 < held (countBigrams fs Map.empty) g)"
    by (simp add: intersectBigrams_none)
  also have "\<dots> = (\<forall>g \<in> set gs. g \<notin> set fs)"
    unfolding held_countBigrams by simp
  also have "\<dots> = (set fs \<inter> set gs = {})" by auto
  finally show ?thesis .
qed

lemma bigrams_short: "length s < 2 \<Longrightarrow> bigrams s = []"
  by (cases s rule: bigrams.cases) simp_all

lemma compareTwoStrings_zero:
  "(compareTwoStrings x y = 0)
   = (removeSpaces x \<noteq> removeSpaces y
      \<and> set (bigrams (removeSpaces x)) \<inter> set (bigrams (removeSpaces y)) = {})"
proof (cases "removeSpaces x = removeSpaces y")
  case True
  then show ?thesis by (simp add: compareTwoStrings_def)
next
  case differ: False
  show ?thesis
  proof (cases "length (removeSpaces x) < 2 \<or> length (removeSpaces y) < 2")
    case True
    then have "bigrams (removeSpaces x) = [] \<or> bigrams (removeSpaces y) = []"
      using bigrams_short by blast
    then have "set (bigrams (removeSpaces x)) \<inter> set (bigrams (removeSpaces y)) = {}"
      by auto
    with differ True show ?thesis by (simp add: compareTwoStrings_def)
  next
    case False
    let ?n = "intersectBigrams (bigrams (removeSpaces y))
                (countBigrams (bigrams (removeSpaces x)) Map.empty) 0"
    let ?len = "length (removeSpaces x) + length (removeSpaces y) - 2"
    from False have den: "real ?len \<noteq> 0" by simp
    from differ False have "compareTwoStrings x y = 2 * real ?n / real ?len"
      by (simp only: compareTwoStrings_def Let_def if_False)
    then have "(compareTwoStrings x y = 0) = (?n = 0)"
      using den by simp
    with differ show ?thesis
      by (simp only: intersection_zero) simp
  qed
qed

section \<open>The inner loop\<close>

lemma calculateSimilarity_total: "\<exists>s. calculateSimilarity cmp d a = Inr s"
  by (auto simp: calculateSimilarity_def normalizeMessage_def falsy_def split: option.splits)

lemma bestOk_weaken: "bestOk dbMsg used api i b \<Longrightarrow> bestOk dbMsg used api (i + 1) b"
  by (auto simp: bestOk_def split: option.splits)

lemma bestOk_new:
  "i < length api \<Longrightarrow> int i \<notin> used \<Longrightarrow> \<not> dateGreater (db_sent_date dbMsg) (apiDateOf (api ! i))
   \<Longrightarrow> SIMILARITY_THRESHOLD \<le> s \<Longrightarrow> bestOk dbMsg used api (i + 1) (Some (api ! i), s, int i)"
  by (simp add: bestOk_def)

lemma scanApi_ok:
  "bestOk dbMsg used api i b \<Longrightarrow>
   \<exists>b'. scanApi cmp dbMsg used api i b = Inr b' \<and> bestOk dbMsg used api (length api) b'"
proof (induction cmp dbMsg used api i b rule: scanApi.induct)
  case (1 cmp dbMsg used api i b)
  note ok = bestOk_weaken [OF "1.prems"]
  show ?case
  proof (cases "i < length api")
    case False
    with "1.prems" show ?thesis
      by (subst scanApi.simps) (auto simp: bestOk_def split: option.splits)
  next
    case inRange: True
    show ?thesis
    proof (cases "int i \<in> used")
      case True
      from "1.IH"(1) [OF inRange True ok] show ?thesis
        by (subst scanApi.simps) (simp add: inRange True)
    next
      case free: False
      show ?thesis
      proof (cases "dateGreater (db_sent_date dbMsg) (apiDateOf (api ! i))")
        case True
        then have g: "dateGreater (newDate (Some (db_sent_date dbMsg)))
                        (newDate (dateOr (api_timestamp (api ! i)) (api_sent_date (api ! i))))"
          by (simp add: apiDateOf_def)
        from "1.IH"(2) [OF inRange free refl refl refl g ok] g show ?thesis
          by (subst scanApi.simps) (simp add: inRange free Let_def)
      next
        case later: False
        then have g: "\<not> dateGreater (newDate (Some (db_sent_date dbMsg)))
                        (newDate (dateOr (api_timestamp (api ! i)) (api_sent_date (api ! i))))"
          by (simp add: apiDateOf_def)
        obtain s where s: "calculateSimilarity cmp (db_message dbMsg)
                             (strOr (api_message (api ! i)) (api_body (api ! i))) = Inr s"
          using calculateSimilarity_total by blast
        show ?thesis
        proof (cases "s > fst (snd b) \<and> s \<ge> SIMILARITY_THRESHOLD")
          case True
          then have new: "bestOk dbMsg used api (i + 1) (Some (api ! i), s, int i)"
            using bestOk_new [OF inRange free later] by simp
          from "1.IH"(3) [OF inRange free refl refl refl g s True new] g True show ?thesis
            by (subst scanApi.simps) (simp add: inRange free s Let_def)
        next
          case False
          from "1.IH"(4) [OF inRange free refl refl refl g s False ok] g False show ?thesis
            by (subst scanApi.simps) (auto simp add: inRange free s Let_def)
        qed
      qed
    qed
  qed
qed

lemma scanApi_all_earlier:
  "\<forall>a \<in> set api. dateGreater (db_sent_date dbMsg) (apiDateOf a) \<Longrightarrow>
   scanApi cmp dbMsg used api i b = Inr b"
proof (induction cmp dbMsg used api i b rule: scanApi.induct)
  case (1 cmp dbMsg used api i b)
  show ?case
  proof (cases "i < length api")
    case False
    then show ?thesis by (subst scanApi.simps) simp
  next
    case inRange: True
    then have "dateGreater (db_sent_date dbMsg) (apiDateOf (api ! i))"
      using "1.prems" by simp
    then have g: "dateGreater (newDate (Some (db_sent_date dbMsg)))
                    (newDate (dateOr (api_timestamp (api ! i)) (api_sent_date (api ! i))))"
      by (simp add: apiDateOf_def)
    show ?thesis
    proof (cases "int i \<in> used")
      case True
      from "1.IH"(1) [OF inRange True "1.prems"] show ?thesis
        by (subst scanApi.simps) (simp add: inRange True)
    next
      case False
      from "1.IH"(2) [OF inRange False refl refl refl g "1.prems"] g show ?thesis
        by (subst scanApi.simps) (simp add: inRange False Let_def)
    qed
  qed
qed

section \<open>The outer loop\<close>

lemma countFirstTotal_lists [simp]:
  "matched (countFirstTotal d r) = matched r" "unmatched (countFirstTotal d r) = unmatched r"
  "matchedCount (stats (countFirstTotal d r)) = matchedCount (stats r)"
  "unmatchedCount (stats (countFirstTotal d r)) = unmatchedCount (stats r)"
  "totalDbMessages (stats (countFirstTotal d r)) = totalDbMessages (stats r)"
  "totalApiMessages (stats (countFirstTotal d r)) = totalApiMessages (stats r)"
  by (simp_all add: countFirstTotal_def)

lemma pushMatched_lists [simp]:
  "matched (pushMatched d a s i r) = matched r @
     [\<lparr> m_dbMessage = dbView d, m_apiMessage = apiView a, confidenceScore = s,
        similarityPercentage = toFixed2 (s * 100) @ ''%'', apiIndex = i \<rparr>]"
  "unmatched (pushMatched d a s i r) = unmatched r"
  "matchedCount (stats (pushMatched d a s i r)) = matchedCount (stats r) + 1"
  "unmatchedCount (stats (pushMatched d a s i r)) = unmatchedCount (stats r)"
  "totalDbMessages (stats (pushMatched d a s i r)) = totalDbMessages (stats r)"
  "totalApiMessages (stats (pushMatched d a s i r)) = totalApiMessages (stats r)"
  by (simp_all add: pushMatched_def Let_def)

lemma pushUnmatched_lists [simp]:
  "matched (pushUnmatched d s r) = matched r"
  "unmatched (pushUnmatched d s r) = unmatched r @
     [\<lparr> u_dbMessage = dbView d, bestMatchScore = s,
        reason = (if s > 0 then ''Below similarity threshold'' else ''No matching message found'') \<rparr>]"
  "matchedCount (stats (pushUnmatched d s r)) = matchedCount (stats r)"
  "unmatchedCount (stats (pushUnmatched d s r)) = unmatchedCount (stats r) + 1"
  "totalDbMessages (stats (pushUnmatched d s r)) = totalDbMessages (stats r)"
  "totalApiMessages (stats (pushUnmatched d s r)) = totalApiMessages (stats r)"
  by (simp_all add: pushUnmatched_def Let_def)

lemma bestOk_start: "bestOk dbMsg used api 0 (None, 0, - 1)"
  by (simp add: bestOk_def)

lemma matchOne_ok:
  assumes "stateOk api st"
  shows "\<exists>st'. matchOne cmp api dbMsg st = Inr st' \<and> stateOk api st'
               \<and> views (fst st') = views (fst st) + {#dbView dbMsg#}
               \<and> totalDbMessages (stats (fst st')) = totalDbMessages (stats (fst st))
               \<and> totalApiMessages (stats (fst st')) = totalApiMessages (stats (fst st))"
proof -
  have "\<exists>b'. scanApi cmp dbMsg (snd st) api 0 (None, 0, - 1) = Inr b'
              \<and> bestOk dbMsg (snd st) api (length api) b'"
    by (rule scanApi_ok [OF bestOk_start])
  then obtain bm bs bi where scan: "scanApi cmp dbMsg (snd st) api 0 (None, 0, - 1) = Inr (bm, bs, bi)"
    and ok: "bestOk dbMsg (snd st) api (length api) (bm, bs, bi)"
    by (metis prod_cases3)
  show ?thesis
  proof (cases bm)
    case None
    with ok have "bs = 0" by (simp add: bestOk_def)
    with assms None scan show ?thesis
      by (simp add: matchOne_def stateOk_def views_def unmatchedOk_def)
  next
    case (Some a)
    with ok have facts: "SIMILARITY_THRESHOLD \<le> bs" "0 \<le> bi" "bi < int (length api)" "bi \<notin> snd st"
      "api ! nat bi = a" "\<not> dateGreater (db_sent_date dbMsg) (apiDateOf a)"
      by (simp_all add: bestOk_def)
    with assms Some scan show ?thesis
      by (auto simp add: matchOne_def stateOk_def views_def matchedOk_def dbView_def)
  qed
qed

lemma matchLoop_ok:
  "stateOk api st \<Longrightarrow>
   \<exists>st'. matchLoop cmp api db st = Inr st' \<and> stateOk api st'
         \<and> views (fst st') = views (fst st) + mset (map dbView db)
         \<and> totalDbMessages (stats (fst st')) = totalDbMessages (stats (fst st))
         \<and> totalApiMessages (stats (fst st')) = totalApiMessages (stats (fst st))"
proof (induction db arbitrary: st)
  case Nil
  then show ?case by simp
next
  case (Cons d db)
  from matchOne_ok [OF Cons.prems, of cmp d] obtain st1 where
    one: "matchOne cmp api d st = Inr st1" and ok1: "stateOk api st1"
    and v1: "views (fst st1) = views (fst st) + {#dbView d#}"
    and t1: "totalDbMessages (stats (fst st1)) = totalDbMessages (stats (fst st))"
            "totalApiMessages (stats (fst st1)) = totalApiMessages (stats (fst st))"
    by blast
  from Cons.IH [OF ok1] one v1 t1 show ?case by auto
qed

lemma setAverage_lists [simp]:
  "matched (setAverage r) = matched r" "unmatched (setAverage r) = unmatched r"
  "matchedCount (stats (setAverage r)) = matchedCount (stats r)"
  "unmatchedCount (stats (setAverage r)) = unmatchedCount (stats r)"
  "totalDbMessages (stats (setAverage r)) = totalDbMessages (stats r)"
  "totalApiMessages (stats (setAverage r)) = totalApiMessages (stats r)"
  by (simp_all add: setAverage_def)

lemma views_setAverage [simp]: "views (setAverage r) = views r"
  by (simp add: views_def)

lemma stateOk_initial: "stateOk api (initialResults n k, {})"
  by (simp add: stateOk_def initialResults_def)

lemma matchMessages_ok:
  "\<exists>r. matchMessages cmp db api = Inr r
       \<and> stateOk api (r, set (map apiIndex (matched r)))
       \<and> views r = mset (map dbView db)
       \<and> totalDbMessages (stats r) = length db \<and> totalApiMessages (stats r) = length api"
proof -
  from matchLoop_ok [where st = "(initialResults (length db) (length api), {})" and api = api
      and cmp = cmp and db = db, OF stateOk_initial]
  obtain st' where run: "matchLoop cmp api db (initialResults (length db) (length api), {}) = Inr st'"
    and ok: "stateOk api st'"
    and v: "views (fst st') = views (initialResults (length db) (length api)) + mset (map dbView db)"
    and t: "totalDbMessages (stats (fst st')) = totalDbMessages (stats (initialResults (length db) (length api)))"
           "totalApiMessages (stats (fst st')) = totalApiMessages (stats (initialResults (length db) (length api)))"
    by auto
  from ok have "stateOk api (setAverage (fst st'), set (map apiIndex (matched (setAverage (fst st')))))"
    by (simp add: stateOk_def)
  with run v t show ?thesis
    by (simp add: matchMessages_def views_def initialResults_def)
qed

lemma matchMessages_single_eligible:
  assumes "db_sent_date d = Instant t" "apiDateOf a = Instant t"
    "calculateSimilarity cmp (db_message d) (strOr (api_message a) (api_body a)) = Inr s"
    "SIMILARITY_THRESHOLD \<le> s"
  shows "\<exists>r. matchMessages cmp [d] [a] = Inr r \<and> map apiIndex (matched r) = [0] \<and> unmatched r = []"
proof -
  from assms(4) have pos: "0 < s" by (simp add: SIMILARITY_THRESHOLD_def)
  have "scanApi cmp d {} [a] 1 (Some a, s, 0) = Inr (Some a, s, 0)"
    by (subst scanApi.simps) simp
  with assms pos have "scanApi cmp d {} [a] 0 (None, 0, - 1) = Inr (Some a, s, 0)"
    by (subst scanApi.simps) (simp add: apiDateOf_def)
  with assms(4) show ?thesis
    by (simp add: matchMessages_def matchOne_def initialResults_def)
qed

section \<open>The batch loop\<close>

lemma matchMessages_resultsOk:
  "\<exists>r. matchMessages cmp db api = Inr r \<and> resultsOk api r \<and> views r = mset (map dbView db)"
  using matchMessages_ok [of cmp db api] by (auto simp: stateOk_def resultsOk_def)

lemma mergeBatch_lists [simp]:
  "matched (mergeBatch a b) = matched a @ matched b"
  "unmatched (mergeBatch a b) = unmatched a @ unmatched b"
  "matchedCount (stats (mergeBatch a b)) = matchedCount (stats a) + matchedCount (stats b)"
  "unmatchedCount (stats (mergeBatch a b)) = unmatchedCount (stats a) + unmatchedCount (stats b)"
  "totalDbMessages (stats (mergeBatch a b)) = totalDbMessages (stats a)"
  "totalApiMessages (stats (mergeBatch a b)) = totalApiMessages (stats a)"
  by (simp_all add: mergeBatch_def)

lemma resultsOk_mergeBatch: "resultsOk api a \<Longrightarrow> resultsOk api b \<Longrightarrow> resultsOk api (mergeBatch a b)"
  by (simp add: resultsOk_def)

lemma views_mergeBatch: "views (mergeBatch a b) = views a + views b"
  by (simp add: views_def)

lemma resultsOk_setAverage: "resultsOk api r \<Longrightarrow> resultsOk api (setAverage r)"
  by (simp add: resultsOk_def)

lemma resultsOk_initial: "resultsOk api (initialResults n k)"
  by (simp add: resultsOk_def initialResults_def)

lemma slice_batch:
  "0 \<le> i \<Longrightarrow> i < int (length xs) \<Longrightarrow> 1 \<le> bs \<Longrightarrow>
   slice xs i (i + bs) = take (nat bs) (drop (nat i) xs)"
  by (auto simp: slice_def Let_def min_def)

lemma drop_batch:
  "0 \<le> i \<Longrightarrow> 1 \<le> bs \<Longrightarrow>
   drop (nat i) xs = take (nat bs) (drop (nat i) xs) @ drop (nat (i + bs)) xs"
  by (simp add: nat_add_distrib add.commute flip: drop_drop)

lemma batchLoop_ok:
  assumes bs: "1 \<le> bs"
  shows "0 \<le> i \<Longrightarrow> resultsOk api acc \<Longrightarrow>
    \<exists>r. batchLoop cmp db api bs i acc = Some (Inr r) \<and> resultsOk api r
        \<and> views r = views acc + mset (map dbView (drop (nat i) db))
        \<and> totalDbMessages (stats r) = totalDbMessages (stats acc)
        \<and> totalApiMessages (stats r) = totalApiMessages (stats acc)"
proof (induction "nat (int (length db) - i)" arbitrary: i acc rule: less_induct)
  case less
  show ?case
  proof (cases "i < int (length db)")
    case False
    with less.prems show ?thesis
      by (subst batchLoop.simps) simp
  next
    case True
    obtain br where br: "matchMessages cmp (slice db i (i + bs)) api = Inr br"
      and brOk: "resultsOk api br" and brViews: "views br = mset (map dbView (slice db i (i + bs)))"
      using matchMessages_resultsOk by blast
    have smaller: "nat (int (length db) - (i + bs)) < nat (int (length db) - i)"
      using bs True by linarith
    have pos: "0 \<le> i + bs" using bs less.prems(1) by simp
    from less.hyps [OF smaller pos resultsOk_mergeBatch [OF less.prems(2) brOk]]
    obtain r where r: "batchLoop cmp db api bs (i + bs) (mergeBatch acc br) = Some (Inr r)"
      and rOk: "resultsOk api r"
      and rViews: "views r = views (mergeBatch acc br) + mset (map dbView (drop (nat (i + bs)) db))"
      and rTot: "totalDbMessages (stats r) = totalDbMessages (stats (mergeBatch acc br))"
                "totalApiMessages (stats r) = totalApiMessages (stats (mergeBatch acc br))"
      by blast
    have "mset (map dbView (drop (nat i) db))
          = mset (map dbView (slice db i (i + bs))) + mset (map dbView (drop (nat (i + bs)) db))"
      using drop_batch [OF less.prems(1) bs, of db] slice_batch [OF less.prems(1) True bs]
      by (metis map_append mset_append)
    with rViews brViews have "views r = views acc + mset (map dbView (drop (nat i) db))"
      by (simp add: views_mergeBatch)
    with r rOk rTot True br show ?thesis
      by (subst batchLoop.simps) simp
  qed
qed

lemma batchMatchMessages_ok:
  assumes "1 \<le> bs"
  shows "\<exists>r. batchMatchMessages cmp db api bs = Some (Inr r) \<and> resultsOk api r
             \<and> views r = mset (map dbView db)
             \<and> totalDbMessages (stats r) = length db \<and> totalApiMessages (stats r) = length api"
proof -
  from batchLoop_ok [OF assms, where i = 0 and api = api and cmp = cmp and db = db
      and acc = "initialResults (length db) (length api)", OF _ resultsOk_initial]
  obtain r where "batchLoop cmp db api bs 0 (initialResults (length db) (length api)) = Some (Inr r)"
    "resultsOk api r" "views r = views (initialResults (length db) (length api)) + mset (map dbView db)"
    "totalDbMessages (stats r) = totalDbMessages (stats (initialResults (length db) (length api)))"
    "totalApiMessages (stats r) = totalApiMessages (stats (initialResults (length db) (length api)))"
    by auto
  then show ?thesis
    by (simp add: batchMatchMessages_def resultsOk_setAverage views_def initialResults_def)
qed

lemma batchLoop_stuck:
  assumes run: "batchLoop cmp db api bs i acc = Some y"
  shows "\<not> (bs \<le> 0 \<and> i < int (length db))"
proof (rule batchLoop.raw_induct
    [where P = "\<lambda>cmp db api bs i acc y. \<not> (bs \<le> 0 \<and> i < int (length db))", OF _ run],
    goal_cases)
  case (1 loop cmp db api bs i acc y)
  show ?case
  proof
    assume stuck: "bs \<le> 0 \<and> i < int (length db)"
    obtain br where br: "matchMessages cmp (slice db i (i + bs)) api = Inr br"
      using matchMessages_resultsOk by blast
    with stuck 1(2) have "loop cmp db api bs (i + bs) (mergeBatch acc br) = Some y"
      by simp
    from 1(1) [OF this] stuck show False by simp
  qed
qed

lemma batchMatchMessages_diverges:
  "bs \<le> 0 \<Longrightarrow> db \<noteq> [] \<Longrightarrow> batchMatchMessages cmp db api bs = None"
proof -
  assume a: "bs \<le> 0" "db \<noteq> []"
  have "batchLoop cmp db api bs 0 (initialResults (length db) (length api)) = None"
  proof (cases "batchLoop cmp db api bs 0 (initialResults (length db) (length api))")
    case (Some y)
    from batchLoop_stuck [OF this] a show ?thesis by simp
  qed simp
  then show ?thesis by (simp add: batchMatchMessages_def)
qed

lemma batchLoop_views:
  assumes bs: "1 \<le> bs"
  shows "0 \<le> i \<Longrightarrow>
    \<exists>r. batchLoop cmp db api bs i acc = Some (Inr r)
        \<and> views r = views acc + mset (map dbView (drop (nat i) db))"
proof (induction "nat (int (length db) - i)" arbitrary: i acc rule: less_induct)
  case less
  show ?case
  proof (cases "i < int (length db)")
    case False
    with less.prems show ?thesis
      by (subst batchLoop.simps) simp
  next
    case True
    obtain br where br: "matchMessages cmp (slice db i (i + bs)) api = Inr br"
      and brViews: "views br = mset (map dbView (slice db i (i + bs)))"
      using matchMessages_resultsOk by blast
    have smaller: "nat (int (length db) - (i + bs)) < nat (int (length db) - i)"
      using bs True by linarith
    have pos: "0 \<le> i + bs" using bs less.prems(1) by simp
    from less.hyps [OF smaller pos]
    obtain r where r: "batchLoop cmp db api bs (i + bs) (mergeBatch acc br) = Some (Inr r)"
      and rViews: "views r = views (mergeBatch acc br) + mset (map dbView (drop (nat (i + bs)) db))"
      by blast
    have "mset (map dbView (drop (nat i) db))
          = mset (map dbView (slice db i (i + bs))) + mset (map dbView (drop (nat (i + bs)) db))"
      using drop_batch [OF less.prems(1) bs, of db] slice_batch [OF less.prems(1) True bs]
      by (metis map_append mset_append)
    with rViews brViews have "views r = views acc + mset (map dbView (drop (nat i) db))"
      by (simp add: views_mergeBatch)
    with r True br show ?thesis
      by (subst batchLoop.simps) simp
  qed
qed

section \<open>Evaluation\<close>

text \<open>The equations that evaluate the matcher on given records.\<close>

lemmas normalize_defs = normalizeMessage_def normalizeStr_def trim_def stripPunctuation_def
  toLowerCase_def lowerChar_def isSpace_def isWord_def code_def

lemmas matcher_defs = matchMessages_def matchOne_def scanApi.simps calculateSimilarity_def
  compareTwoStrings_def removeSpaces_def falsy_def strOr_def initialResults_def pushMatched_def pushUnmatched_def
  countFirstTotal_def isFirst_def FIRST_MESSAGE_def dbView_def apiView_def setAverage_def
  SIMILARITY_THRESHOLD_def toFixed2_def digitsOf.simps digitChar_def Let_def
  internalRecord_def externalRecord_def

lemmas batch_defs = batchMatchMessages_def batchLoop.simps slice_def mergeBatch_def

section \<open>Unmatched outcomes\<close>

text \<open>
  The inner loop keeps a score only when it reaches the threshold, so an outcome that is
  pushed as unmatched always carries the score 0 and the second reason.
\<close>

lemma unmatched_score_is_zero:
  "matchMessages cmp db api = Inr r \<Longrightarrow> u \<in> set (unmatched r) \<Longrightarrow>
   bestMatchScore u = 0 \<and> reason u = ''No matching message found''"
  using matchMessages_ok [of cmp db api]
  by (auto simp: stateOk_def unmatchedOk_def list_all_iff)

text \<open>
  Claim C1: every Unmatched outcome carries the best similarity score observed among its
  temporally eligible candidates, with the reason \<open>Below similarity threshold\<close> exactly
  when that score is greater than 0. The code does not do this: for the internal text
  \<open>hello\<close> and one later external record \<open>help\<close> the observed score is 4/7, and the
  outcome carries the score 0 and the reason \<open>No matching message found\<close>.
\<close>

theorem unmatched_score_at_failing_input:
  "calculateSimilarity compareTwoStrings (Some ''hello'') (Some ''help'') = Inr (4 / 7)
   \<and> matchMessages compareTwoStrings [internalRecord ''m1'' ''hello'' 1000]
        [externalRecord ''help'' 2000]
     = Inr \<lparr> matched = [],
             unmatched = [\<lparr> u_dbMessage = dbView (internalRecord ''m1'' ''hello'' 1000),
                            bestMatchScore = 0, reason = ''No matching message found'' \<rparr>],
             stats = \<lparr> totalDbMessages = 1, totalApiMessages = 1, matchedCount = 0,
                       unmatchedCount = 1, averageConfidence = ConfidenceZero,
                       firstStats = \<lparr> fm_total = 1, fm_matched = 0, fm_unmatched = 1 \<rparr> \<rparr> \<rparr>"
  by (simp add: matcher_defs normalize_defs)

section \<open>Consumption of external records\<close>

text \<open>
  Claim C2: within one batch the Matched outcomes refer to pairwise different external
  records (each at a position of the pool, whose text and time the outcome copies), while
  in a run of two batches of size 1 both batches select the external record at position 0.
\<close>

theorem external_record_once_per_batch_reused_across_batches:
  "(\<exists>r. matchMessages cmp db api = Inr r \<and> distinct (map apiIndex (matched r))
        \<and> (\<forall>m \<in> set (matched r). 0 \<le> apiIndex m \<and> apiIndex m < int (length api)
               \<and> m_apiMessage m = apiView (api ! nat (apiIndex m))))
   \<and> (\<exists>r. batchMatchMessages compareTwoStrings
              [internalRecord ''m1'' ''hello'' 1000, internalRecord ''m2'' ''hello'' 1001]
              [externalRecord ''hello'' 2000] 1 = Some (Inr r)
           \<and> map apiIndex (matched r) = [0, 0])"
proof
  from matchMessages_ok [of cmp db api]
  show "\<exists>r. matchMessages cmp db api = Inr r \<and> distinct (map apiIndex (matched r))
        \<and> (\<forall>m \<in> set (matched r). 0 \<le> apiIndex m \<and> apiIndex m < int (length api)
               \<and> m_apiMessage m = apiView (api ! nat (apiIndex m)))"
    by (auto simp: stateOk_def matchedOk_def list_all_iff)
next
  show "\<exists>r. batchMatchMessages compareTwoStrings
              [internalRecord ''m1'' ''hello'' 1000, internalRecord ''m2'' ''hello'' 1001]
              [externalRecord ''hello'' 2000] 1 = Some (Inr r)
           \<and> map apiIndex (matched r) = [0, 0]"
    by (simp add: batch_defs matcher_defs normalize_defs)
qed

theorem external_record_once_per_batch_witness:
  "\<exists>r. matchMessages compareTwoStrings
          [internalRecord ''m1'' ''hello'' 1000, internalRecord ''m2'' ''hello'' 1001]
          [externalRecord ''hello'' 2000, externalRecord ''hello'' 2001] = Inr r
       \<and> map apiIndex (matched r) = [0, 1] \<and> distinct (map apiIndex (matched r))
       \<and> map m_apiMessage (matched r)
         = [apiView (externalRecord ''hello'' 2000), apiView (externalRecord ''hello'' 2001)]"
  using external_record_once_per_batch_reused_across_batches
    [of compareTwoStrings
       "[internalRecord ''m1'' ''hello'' 1000, internalRecord ''m2'' ''hello'' 1001]"
       "[externalRecord ''hello'' 2000, externalRecord ''hello'' 2001]"]
  by (simp add: matcher_defs normalize_defs)

section \<open>Every internal record has one outcome\<close>

text \<open>
  Claim C3: every internal record appears in exactly one outcome, Matched or Unmatched: the
  internal records of the outcomes are, as a multiset, those of the input, so the two
  lists have as many elements together as the input, and the two counters agree with
  them; this holds of one batch and, for a batch size of at least 1, of the merged result.
\<close>

theorem every_internal_record_in_exactly_one_outcome:
  "(\<exists>r. matchMessages cmp db api = Inr r
        \<and> mset (map m_dbMessage (matched r)) + mset (map u_dbMessage (unmatched r))
          = mset (map dbView db)
        \<and> length (matched r) + length (unmatched r) = length db
        \<and> matchedCount (stats r) = length (matched r)
        \<and> unmatchedCount (stats r) = length (unmatched r)
        \<and> totalDbMessages (stats r) = length db)
   \<and> (1 \<le> bs \<longrightarrow>
        (\<exists>r. batchMatchMessages cmp db api bs = Some (Inr r)
           \<and> mset (map m_dbMessage (matched r)) + mset (map u_dbMessage (unmatched r))
             = mset (map dbView db)
           \<and> length (matched r) + length (unmatched r) = length db
           \<and> matchedCount (stats r) = length (matched r)
           \<and> unmatchedCount (stats r) = length (unmatched r)
           \<and> totalDbMessages (stats r) = length db))"
proof (intro conjI impI)
  obtain r where r: "matchMessages cmp db api = Inr r" "resultsOk api r"
    "views r = mset (map dbView db)" "totalDbMessages (stats r) = length db"
    using matchMessages_ok [of cmp db api] by (auto simp: stateOk_def resultsOk_def)
  from r(3) have "size (views r) = length db"
    by simp
  then have "length (matched r) + length (unmatched r) = length db"
    by (simp add: views_def)
  with r show "\<exists>r. matchMessages cmp db api = Inr r
        \<and> mset (map m_dbMessage (matched r)) + mset (map u_dbMessage (unmatched r))
          = mset (map dbView db)
        \<and> length (matched r) + length (unmatched r) = length db
        \<and> matchedCount (stats r) = length (matched r)
        \<and> unmatchedCount (stats r) = length (unmatched r)
        \<and> totalDbMessages (stats r) = length db"
    by (auto simp: views_def resultsOk_def)
next
  assume "1 \<le> bs"
  from batchMatchMessages_ok [OF this, of cmp db api]
  obtain r where r: "batchMatchMessages cmp db api bs = Some (Inr r)" "resultsOk api r"
    "views r = mset (map dbView db)" "totalDbMessages (stats r) = length db"
    by auto
  from r(3) have "size (views r) = length db"
    by simp
  then have "length (matched r) + length (unmatched r) = length db"
    by (simp add: views_def)
  with r show "\<exists>r. batchMatchMessages cmp db api bs = Some (Inr r)
           \<and> mset (map m_dbMessage (matched r)) + mset (map u_dbMessage (unmatched r))
             = mset (map dbView db)
           \<and> length (matched r) + length (unmatched r) = length db
           \<and> matchedCount (stats r) = length (matched r)
           \<and> unmatchedCount (stats r) = length (unmatched r)
           \<and> totalDbMessages (stats r) = length db"
    by (auto simp: views_def resultsOk_def)
qed

theorem every_internal_record_in_exactly_one_outcome_witness:
  "(1::int) \<le> 2
   \<and> (\<exists>r. batchMatchMessages compareTwoStrings
          [internalRecord ''m1'' ''hello'' 1000, internalRecord ''m2'' ''help'' 1001,
           internalRecord ''m3'' ''hello'' 1002]
          [externalRecord ''hello'' 2000] 2 = Some (Inr r)
        \<and> length (matched r) + length (unmatched r) = 3
        \<and> matchedCount (stats r) = length (matched r)
        \<and> unmatchedCount (stats r) = length (unmatched r))"
  using every_internal_record_in_exactly_one_outcome
    [of compareTwoStrings
       "[internalRecord ''m1'' ''hello'' 1000, internalRecord ''m2'' ''help'' 1001,
         internalRecord ''m3'' ''hello'' 1002]"
       "[externalRecord ''hello'' 2000]" 2]
  by auto

section \<open>The match rate of the report\<close>

text \<open>
  Claim C4: with zero internal records the reported match rate is \<open>0%\<close>. The code
  divides the two counters without a guard: for the empty run the quotient is \<open>NaN\<close>
  and the report says \<open>NaN%\<close>, while the rate of first messages computed beside it is
  guarded and says \<open>0%\<close>.
\<close>

theorem match_rate_at_failing_input:
  "batchMatchMessages compareTwoStrings [] [] BATCH_SIZE = Some (Inr (initialResults 0 0))
   \<and> matchRate (summary (generateVerificationReport (initialResults 0 0) True
        ''2024-01-01'' ''2024-01-31'' [])) = ''NaN%''
   \<and> unmatchedRate (summaryFirstStats (summary (generateVerificationReport (initialResults 0 0) True
        ''2024-01-01'' ''2024-01-31'' []))) = ''0%''"
  by (simp add: batch_defs matcher_defs generateVerificationReport_def jsDivide_def)

section \<open>The threshold of the request\<close>

text \<open>
  Every Matched outcome has a confidence of at least the constant
  \<open>SIMILARITY_THRESHOLD\<close>, whatever the request asked for.
\<close>

lemma matched_confidence_reaches_constant:
  "matchMessages cmp db api = Inr r \<Longrightarrow> m \<in> set (matched r) \<Longrightarrow>
   SIMILARITY_THRESHOLD \<le> confidenceScore m"
  using matchMessages_ok [of cmp db api]
  by (auto simp: stateOk_def matchedOk_def list_all_iff)

text \<open>
  Claim C8: every Matched outcome's confidence is at least the \<open>matchingThreshold\<close> of the
  verification request. The service reads the parameter and calls the matcher without
  it: a request with the threshold 0.95, which the controller accepts, gets a Matched
  outcome of confidence 10/11 for the texts \<open>invoice12345\<close> and \<open>invoice12346\<close>.
\<close>

theorem threshold_at_failing_input:
  "\<not> thresholdRejected (19 / 20)
   \<and> calculateSimilarity compareTwoStrings (Some ''invoice12345'') (Some ''invoice12346'') = Inr (10 / 11)
   \<and> verifyMessages compareTwoStrings
        \<lparr> dateFrom = ''2024-01-01'', dateTo = ''2024-01-31'', matchingThreshold = Some (19 / 20),
          includeDetails = Some True \<rparr>
        [''60123456789''] [internalRecord ''m1'' ''invoice12345'' 1000]
        [\<lparr> responseMessages = Some [externalRecord ''invoice12346'' 2000], responseSuccess = True \<rparr>]
     = Some (Inr
        \<lparr> summary =
            \<lparr> periodFrom = ''2024-01-01'', periodTo = ''2024-01-31'', phoneNumbersVerified = 1,
              phoneNumbers = [''60123456789''], totalMessagesInDB = 1, totalMessagesInAPI = 1,
              matchedMessages = 1, unmatchedMessages = 0, matchRate = ''100.00%'',
              summaryConfidence = ConfidencePercent ''90.91%'',
              summaryFirstStats = \<lparr> fs_total = 1, fs_matched = 1, fs_unmatched = 0,
                                     unmatchedRate = ''0.00%'' \<rparr> \<rparr>,
          details = Some
            \<lparr> detailMatched =
                [\<lparr> m_dbMessage = dbView (internalRecord ''m1'' ''invoice12345'' 1000),
                   m_apiMessage = apiView (externalRecord ''invoice12346'' 2000),
                   confidenceScore = 10 / 11, similarityPercentage = ''90.91%'', apiIndex = 0 \<rparr>],
              detailUnmatched = [] \<rparr> \<rparr>)"
  by (simp add: verifyMessages_def flattenApiMessages_def BATCH_SIZE_def thresholdRejected_def
      generateVerificationReport_def jsDivide_def batch_defs matcher_defs normalize_defs)

section \<open>The temporal constraint\<close>

text \<open>
  Claim C5: no Matched outcome pairs an internal record with an external record whose
  time is strictly earlier; an internal record that is strictly later than every
  external record of the pool is not matched and has an Unmatched outcome, with the
  score 0 and the reason \<open>No matching message found\<close>; and an external record of the
  same instant stays eligible: it is matched when its score reaches the threshold.
\<close>

theorem no_match_with_an_earlier_external_record:
  "(\<exists>r. matchMessages cmp db api = Inr r
       \<and> (\<forall>m \<in> set (matched r).
             0 \<le> apiIndex m \<and> apiIndex m < int (length api)
             \<and> m_apiMessage m = apiView (api ! nat (apiIndex m))
             \<and> \<not> dateGreater (v_sentDate (m_dbMessage m)) (apiDateOf (api ! nat (apiIndex m))))
       \<and> (\<forall>d \<in> set db.
             (\<forall>a \<in> set api. dateGreater (db_sent_date d) (apiDateOf a)) \<longrightarrow>
             dbView d \<notin> set (map m_dbMessage (matched r))
             \<and> (\<exists>u \<in> set (unmatched r). u_dbMessage u = dbView d)
             \<and> (\<forall>u \<in> set (unmatched r). u_dbMessage u = dbView d \<longrightarrow>
                   bestMatchScore u = 0 \<and> reason u = ''No matching message found'')))
   \<and> (db_sent_date d = Instant t \<and> apiDateOf a = Instant t
        \<and> calculateSimilarity cmp (db_message d) (strOr (api_message a) (api_body a)) = Inr s
        \<and> SIMILARITY_THRESHOLD \<le> s \<longrightarrow>
        (\<exists>r. matchMessages cmp [d] [a] = Inr r \<and> map apiIndex (matched r) = [0]
            \<and> unmatched r = []))"
proof (intro conjI impI)
  assume "db_sent_date d = Instant t \<and> apiDateOf a = Instant t
        \<and> calculateSimilarity cmp (db_message d) (strOr (api_message a) (api_body a)) = Inr s
        \<and> SIMILARITY_THRESHOLD \<le> s"
  then show "\<exists>r. matchMessages cmp [d] [a] = Inr r \<and> map apiIndex (matched r) = [0]
            \<and> unmatched r = []"
    using matchMessages_single_eligible [of d t a cmp s] by blast
next
  obtain r where run: "matchMessages cmp db api = Inr r"
    and ok: "stateOk api (r, set (map apiIndex (matched r)))"
    and v: "views r = mset (map dbView db)"
    using matchMessages_ok [of cmp db api] by blast
  from ok have m: "\<And>m. m \<in> set (matched r) \<Longrightarrow> matchedOk api m"
    and u: "\<And>u. u \<in> set (unmatched r) \<Longrightarrow> unmatchedOk u"
    by (auto simp: stateOk_def list_all_iff)
  have early: "dbView d \<notin> set (map m_dbMessage (matched r))
               \<and> (\<exists>u \<in> set (unmatched r). u_dbMessage u = dbView d)"
    if d: "d \<in> set db" and all: "\<forall>a \<in> set api. dateGreater (db_sent_date d) (apiDateOf a)" for d
  proof -
    have notMatched: "dbView d \<notin> set (map m_dbMessage (matched r))"
    proof
      assume "dbView d \<in> set (map m_dbMessage (matched r))"
      then obtain mo where mo: "mo \<in> set (matched r)" "m_dbMessage mo = dbView d"
        by auto
      from m [OF mo(1)] have "nat (apiIndex mo) < length api"
        and "\<not> dateGreater (v_sentDate (m_dbMessage mo)) (apiDateOf (api ! nat (apiIndex mo)))"
        by (auto simp: matchedOk_def)
      with all mo(2) show False
        by (simp add: dbView_def)
    qed
    from d have "dbView d \<in># mset (map dbView db)"
      by simp
    with v have "dbView d \<in># views r"
      by simp
    with notMatched have "dbView d \<in> set (map u_dbMessage (unmatched r))"
      by (auto simp: views_def)
    with notMatched show ?thesis
      by auto
  qed
  from run m u early
  show "\<exists>r. matchMessages cmp db api = Inr r
       \<and> (\<forall>m \<in> set (matched r).
             0 \<le> apiIndex m \<and> apiIndex m < int (length api)
             \<and> m_apiMessage m = apiView (api ! nat (apiIndex m))
             \<and> \<not> dateGreater (v_sentDate (m_dbMessage m)) (apiDateOf (api ! nat (apiIndex m))))
       \<and> (\<forall>d \<in> set db.
             (\<forall>a \<in> set api. dateGreater (db_sent_date d) (apiDateOf a)) \<longrightarrow>
             dbView d \<notin> set (map m_dbMessage (matched r))
             \<and> (\<exists>u \<in> set (unmatched r). u_dbMessage u = dbView d)
             \<and> (\<forall>u \<in> set (unmatched r). u_dbMessage u = dbView d \<longrightarrow>
                   bestMatchScore u = 0 \<and> reason u = ''No matching message found''))"
    by (auto simp: matchedOk_def unmatchedOk_def)
qed

theorem no_match_with_an_earlier_external_record_witness:
  "(\<exists>r. matchMessages compareTwoStrings
          [internalRecord ''m1'' ''hello'' 1000, internalRecord ''m2'' ''hello'' 3000]
          [externalRecord ''hello'' 1000, externalRecord ''hello'' 2000] = Inr r
       \<and> map apiIndex (matched r) = [0]
       \<and> map m_dbMessage (matched r) = [dbView (internalRecord ''m1'' ''hello'' 1000)]
       \<and> map u_dbMessage (unmatched r) = [dbView (internalRecord ''m2'' ''hello'' 3000)]
       \<and> map bestMatchScore (unmatched r) = [0]
       \<and> map reason (unmatched r) = [''No matching message found''])
   \<and> dateGreater (Instant 3000) (apiDateOf (externalRecord ''hello'' 1000))
   \<and> dateGreater (Instant 3000) (apiDateOf (externalRecord ''hello'' 2000))
   \<and> db_sent_date (internalRecord ''m1'' ''hello'' 1000) = Instant 1000
   \<and> apiDateOf (externalRecord ''hello'' 1000) = Instant 1000
   \<and> calculateSimilarity compareTwoStrings (db_message (internalRecord ''m1'' ''hello'' 1000))
        (strOr (api_message (externalRecord ''hello'' 1000))
           (api_body (externalRecord ''hello'' 1000))) = Inr 1
   \<and> SIMILARITY_THRESHOLD \<le> 1
   \<and> (\<exists>r. matchMessages compareTwoStrings [internalRecord ''m1'' ''hello'' 1000]
          [externalRecord ''hello'' 1000] = Inr r
        \<and> map apiIndex (matched r) = [0] \<and> unmatched r = [])"
  using no_match_with_an_earlier_external_record
    [of compareTwoStrings
       "[internalRecord ''m1'' ''hello'' 1000, internalRecord ''m2'' ''hello'' 3000]"
       "[externalRecord ''hello'' 1000, externalRecord ''hello'' 2000]"
       "internalRecord ''m1'' ''hello'' 1000" 1000 "externalRecord ''hello'' 1000" 1]
  by (simp add: matcher_defs normalize_defs apiDateOf_def)

section \<open>Termination of the batch loop\<close>

text \<open>
  Claim C10: for a batch size of at least 1 the batch loop ends, from every index
  \<open>i\<close> at or after 0, and gives every internal record from \<open>i\<close> on exactly one outcome;
  so does \<open>batchMatchMessages\<close> for the whole list. The bound is needed: with a batch
  size of 0 or less and a non-empty list the loop never ends.
\<close>

theorem batch_loop_terminates:
  "(0 \<le> i \<and> 1 \<le> bs \<longrightarrow>
      (\<exists>r. batchLoop cmp db api bs i acc = Some (Inr r)
          \<and> mset (map m_dbMessage (matched r)) + mset (map u_dbMessage (unmatched r))
            = mset (map m_dbMessage (matched acc)) + mset (map u_dbMessage (unmatched acc))
              + mset (map dbView (drop (nat i) db))))
   \<and> (1 \<le> bs \<longrightarrow>
        (\<exists>r. batchMatchMessages cmp db api bs = Some (Inr r)
            \<and> mset (map m_dbMessage (matched r)) + mset (map u_dbMessage (unmatched r))
              = mset (map dbView db)))
   \<and> (bs \<le> 0 \<and> db \<noteq> [] \<longrightarrow> batchMatchMessages cmp db api bs = None)"
proof (intro conjI impI)
  assume "0 \<le> i \<and> 1 \<le> bs"
  then show "\<exists>r. batchLoop cmp db api bs i acc = Some (Inr r)
          \<and> mset (map m_dbMessage (matched r)) + mset (map u_dbMessage (unmatched r))
            = mset (map m_dbMessage (matched acc)) + mset (map u_dbMessage (unmatched acc))
              + mset (map dbView (drop (nat i) db))"
    using batchLoop_views [of bs i cmp db api acc] by (simp add: views_def)
next
  assume "1 \<le> bs"
  from batchMatchMessages_ok [OF this, of cmp db api]
  show "\<exists>r. batchMatchMessages cmp db api bs = Some (Inr r)
            \<and> mset (map m_dbMessage (matched r)) + mset (map u_dbMessage (unmatched r))
              = mset (map dbView db)"
    by (auto simp: views_def)
next
  assume "bs \<le> 0 \<and> db \<noteq> []"
  then show "batchMatchMessages cmp db api bs = None"
    by (simp add: batchMatchMessages_diverges)
qed

theorem batch_loop_terminates_witness:
  "(0::int) \<le> 0 \<and> (1::int) \<le> 2
   \<and> (\<exists>r. batchMatchMessages compareTwoStrings
          [internalRecord ''m1'' ''hello'' 1000, internalRecord ''m2'' ''help'' 1001,
           internalRecord ''m3'' ''hello'' 1002]
          [externalRecord ''hello'' 2000] 2 = Some (Inr r)
        \<and> mset (map m_dbMessage (matched r)) + mset (map u_dbMessage (unmatched r))
          = mset (map dbView [internalRecord ''m1'' ''hello'' 1000,
               internalRecord ''m2'' ''help'' 1001, internalRecord ''m3'' ''hello'' 1002]))
   \<and> (0::int) \<le> 0 \<and> [internalRecord ''m1'' ''hello'' 1000] \<noteq> []
   \<and> batchMatchMessages compareTwoStrings [internalRecord ''m1'' ''hello'' 1000]
        [externalRecord ''hello'' 2000] 0 = None"
  using batch_loop_terminates
    [of 0 2 compareTwoStrings
       "[internalRecord ''m1'' ''hello'' 1000, internalRecord ''m2'' ''help'' 1001,
         internalRecord ''m3'' ''hello'' 1002]"
       "[externalRecord ''hello'' 2000]"]
    batch_loop_terminates
    [of 0 0 compareTwoStrings "[internalRecord ''m1'' ''hello'' 1000]"
       "[externalRecord ''hello'' 2000]"]
  by simp

section \<open>Normalizing twice\<close>

text \<open>
  The normalizer is not idempotent: white space is collapsed before the punctuation is
  removed, so a punctuation mark between two spaces leaves two spaces, which a second
  pass collapses.
\<close>

theorem normalize_twice_counterexample:
  "normalizeMessage (Some ''a ! b'') = Inr ''a  b''
   \<and> normalizeMessage (Some ''a  b'') = Inr ''a b''
   \<and> normalizeStr (normalizeStr ''a ! b'') \<noteq> normalizeStr ''a ! b''"
  by (simp add: normalize_defs)

text \<open>
  Claim C6, amended: normalizing a normalized string gives the same string exactly when
  it has no two spaces in a row; this is so for every input made of word characters and
  white space only.
\<close>

theorem normalize_idempotent_without_double_space:
  "normalizeMessage (Some x) = Inr (normalizeStr x)
   \<and> ((normalizeMessage (Some (normalizeStr x)) = Inr (normalizeStr x))
        = (\<not> doubleSpace (normalizeStr x)))
   \<and> (list_all (\<lambda>c. isWord c \<or> isSpace c) x \<longrightarrow>
        normalizeMessage (Some (normalizeStr x)) = Inr (normalizeStr x))"
proof (intro conjI impI)
  show "normalizeMessage (Some x) = Inr (normalizeStr x)"
    by (simp add: normalizeMessage_def)
next
  have "\<forall>c \<in> set (normalizeStr x). isSpace c \<longrightarrow> c = CHR '' ''"
    using normalizeStr_plain plain_space by blast
  from collapseSpaces_fixed [OF this]
  show "(normalizeMessage (Some (normalizeStr x)) = Inr (normalizeStr x))
        = (\<not> doubleSpace (normalizeStr x))"
    by (simp add: normalizeMessage_def normalizeStr_again)
next
  assume "list_all (\<lambda>c. isWord c \<or> isSpace c) x"
  then have "\<forall>c \<in> set x. isWord c \<or> isSpace c"
    by (simp add: list_all_iff)
  then show "normalizeMessage (Some (normalizeStr x)) = Inr (normalizeStr x)"
    by (simp add: normalizeMessage_def normalizeStr_idempotent_without_punctuation)
qed

theorem normalize_idempotent_witness:
  "list_all (\<lambda>c. isWord c \<or> isSpace c) ''hello   world ''
   \<and> normalizeMessage (Some ''hello   world '') = Inr ''hello world''
   \<and> normalizeMessage (Some ''hello world'') = Inr ''hello world''
   \<and> \<not> doubleSpace ''hello world''"
  using normalize_idempotent_without_double_space [of "''hello   world ''"]
  by (simp add: normalize_defs)

section \<open>The normalizer on a missing message\<close>

text \<open>On \<open>null\<close> the normalizer does not return: the method call throws.\<close>

theorem normalize_null_counterexample:
  "normalizeMessage None = Inl TypeError"
  by (simp add: normalizeMessage_def)

text \<open>
  Claim C7, amended: on every string, the empty one included, the normalizer returns a
  string, and the empty string is normalized to the empty string. A missing or empty
  message never reaches it: \<open>calculateSimilarity\<close> answers 0 first, and so never fails.
\<close>

theorem normalize_total_on_strings:
  "(\<exists>r. normalizeMessage (Some s) = Inr r)
   \<and> normalizeMessage (Some []) = Inr []
   \<and> calculateSimilarity cmp None a = Inr 0
   \<and> calculateSimilarity cmp d None = Inr 0
   \<and> calculateSimilarity cmp (Some []) a = Inr 0
   \<and> calculateSimilarity cmp d (Some []) = Inr 0
   \<and> (\<exists>score. calculateSimilarity cmp d a = Inr score)"
  using calculateSimilarity_total [of cmp d a]
  by (simp add: normalizeMessage_def calculateSimilarity_def falsy_def normalize_defs)

section \<open>Strings without a common bigram\<close>

text \<open>
  The scorer compares the normalized strings without their spaces and answers 1 when
  they are equal: \<open>a b\<close> and \<open>ab\<close>, and \<open>a\<close> and itself, share no bigram and score 1.
\<close>

theorem similarity_without_common_bigram_counterexample:
  "set (bigrams (normalizeStr ''a b'')) \<inter> set (bigrams (normalizeStr ''ab'')) = {}
   \<and> calculateSimilarity compareTwoStrings (Some ''a b'') (Some ''ab'') = Inr 1
   \<and> set (bigrams (normalizeStr ''a'')) \<inter> set (bigrams (normalizeStr ''a'')) = {}
   \<and> calculateSimilarity compareTwoStrings (Some ''a'') (Some ''a'') = Inr 1"
  by (simp add: normalize_defs calculateSimilarity_def compareTwoStrings_def removeSpaces_def
      falsy_def)

text \<open>
  Claim C9, amended: for two non-empty messages the scorer returns 0 exactly when their
  normalized forms, with the white space removed, differ and share no character bigram.
\<close>

theorem similarity_zero_iff_no_common_bigram:
  "d \<noteq> [] \<Longrightarrow> a \<noteq> [] \<Longrightarrow>
   (calculateSimilarity compareTwoStrings (Some d) (Some a) = Inr 0)
   = (removeSpaces (normalizeStr d) \<noteq> removeSpaces (normalizeStr a)
      \<and> set (bigrams (removeSpaces (normalizeStr d)))
          \<inter> set (bigrams (removeSpaces (normalizeStr a))) = {})"
proof -
  assume "d \<noteq> []" "a \<noteq> []"
  then have "calculateSimilarity compareTwoStrings (Some d) (Some a)
             = Inr (compareTwoStrings (normalizeStr d) (normalizeStr a))"
    by (simp add: calculateSimilarity_def falsy_def normalizeMessage_def)
  then show ?thesis
    by (simp only: compareTwoStrings_zero sum.inject)
qed

theorem similarity_zero_iff_no_common_bigram_witness:
  "''ab c'' \<noteq> [] \<and> ''x yz'' \<noteq> []
   \<and> removeSpaces (normalizeStr ''ab c'') = ''abc''
   \<and> removeSpaces (normalizeStr ''x yz'') = ''xyz''
   \<and> set (bigrams (removeSpaces (normalizeStr ''ab c'')))
       \<inter> set (bigrams (removeSpaces (normalizeStr ''x yz''))) = {}
   \<and> calculateSimilarity compareTwoStrings (Some ''ab c'') (Some ''x yz'') = Inr 0"
proof -
  have h: "''ab c'' \<noteq> []" "''x yz'' \<noteq> []"
    by simp_all
  have forms: "removeSpaces (normalizeStr ''ab c'') = ''abc''"
    "removeSpaces (normalizeStr ''x yz'') = ''xyz''"
    by (simp_all add: normalize_defs removeSpaces_def)
  have apart: "set (bigrams (removeSpaces (normalizeStr ''ab c'')))
       \<inter> set (bigrams (removeSpaces (normalizeStr ''x yz''))) = {}"
    unfolding forms by simp
  from similarity_zero_iff_no_common_bigram [OF h] forms apart
  have "calculateSimilarity compareTwoStrings (Some ''ab c'') (Some ''x yz'') = Inr 0"
    by simp
  with h forms apart show ?thesis
    by simp
qed

end
